theory Spec2Isabelle
  imports Complex_Main "HOL-Library.Word"
begin

section \<open>Block-template assembly (miner.cpp)\<close>

text \<open>
  A shallow embedding of the template builders of \<^verbatim>\<open>src/miner.cpp\<close>:
  \<^verbatim>\<open>UpdateTime\<close>, the two overloads of \<^verbatim>\<open>CreateNewForkBlock\<close>,
  \<^verbatim>\<open>CreateNewBlock\<close> and \<^verbatim>\<open>IncrementExtraNonce\<close>.

  Everything the file calls but does not define (serialisation sizes, sig-op counts, the
  script push operators, the coins view, the difficulty rule, the configuration) is a
  field of an environment record that every function of the model takes as its first
  argument.
\<close>

subsection \<open>Data model\<close>

type_synonym byte = "8 word"
type_synonym uint256 = "256 word"
type_synonym CAmount = "64 word"
type_synonym CScript = "byte list"

record COutPoint =
  outpoint_hash :: uint256
  outpoint_n :: "32 word"

text \<open>\<^verbatim>\<open>COutPoint::SetNull\<close> and \<^verbatim>\<open>IsNull\<close>: the designated null value.\<close>

definition SetNull :: "COutPoint" where
  "SetNull = \<lparr>outpoint_hash = 0, outpoint_n = - 1\<rparr>"

definition IsNull :: "COutPoint \<Rightarrow> bool" where
  "IsNull p = (outpoint_hash p = 0 \<and> outpoint_n p = - 1)"

record CTxIn =
  prevout :: COutPoint
  scriptSig :: CScript
  nSequence :: "32 word"

record CTxOut =
  nValue :: CAmount
  scriptPubKey :: CScript

text \<open>The default-constructed input and output, which \<^verbatim>\<open>vector::resize\<close> appends.\<close>

definition CTxIn_default :: CTxIn where
  "CTxIn_default = \<lparr>prevout = SetNull, scriptSig = [], nSequence = - 1\<rparr>"

definition CTxOut_default :: CTxOut where
  "CTxOut_default = \<lparr>nValue = - 1, scriptPubKey = []\<rparr>"

text \<open>
  A transaction: inputs, outputs and the shielded descriptors, which the builders never
  look into (they are byte strings here).
\<close>

record CTransaction =
  nVersion :: "32 word"
  vin :: "CTxIn list"
  vout :: "CTxOut list"
  nLockTime :: "32 word"
  vjoinsplit :: "byte list list"
  joinSplitPubKey :: uint256
  joinSplitSig :: "byte list"

definition CTransaction_default :: CTransaction where
  "CTransaction_default =
     \<lparr>nVersion = 1, vin = [], vout = [], nLockTime = 0, vjoinsplit = [],
      joinSplitPubKey = 0, joinSplitSig = []\<rparr>"

text \<open>
  Modelled from the spec: \<^verbatim>\<open>CTransaction::IsCoinBase\<close> (declared in
  primitives/transaction.h). A coinbase has exactly one input, whose previous outpoint is
  the null value.
\<close>

definition IsCoinBase :: "CTransaction \<Rightarrow> bool" where
  "IsCoinBase tx = (case vin tx of [i] \<Rightarrow> IsNull (prevout i) | _ \<Rightarrow> False)"

text \<open>\<^verbatim>\<open>v.resize(1)\<close> on a vector: cut to the first element, or append a default one.\<close>

definition resize1 :: "'a \<Rightarrow> 'a list \<Rightarrow> 'a list" where
  "resize1 d xs = (case xs of [] \<Rightarrow> [d] | x # _ \<Rightarrow> [x])"

text \<open>
  Modelled from the spec: the field types of the block header (class
  \<^verbatim>\<open>CBlockHeader\<close> is declared in primitives/block.h). The time is a number
  of seconds in an unsigned field of 32 bits, \<open>nBits\<close> is the compact difficulty.
\<close>

record CBlockHeader =
  hdr_nVersion :: int
  hashPrevBlock :: uint256
  hashMerkleRoot :: uint256
  hashReserved :: uint256
  nTime :: "32 word"
  nBits :: "32 word"
  nNonce :: uint256
  nSolution :: "byte list"

record CBlock = CBlockHeader +
  vtx :: "CTransaction list"

definition CBlock_default :: CBlock where
  "CBlock_default =
     \<lparr>hdr_nVersion = 0, hashPrevBlock = 0, hashMerkleRoot = 0, hashReserved = 0,
      nTime = 0, nBits = 0, nNonce = 0, nSolution = [], vtx = []\<rparr>"

record CBlockTemplate =
  block :: CBlock
  vTxFees :: "CAmount list"
  vTxSigOps :: "int list"

definition CBlockTemplate_default :: CBlockTemplate where
  "CBlockTemplate_default = \<lparr>block = CBlock_default, vTxFees = [], vTxSigOps = []\<rparr>"

text \<open>The previous block index: what the builders read of the chain tip.\<close>

record CBlockIndex =
  index_nHeight :: int
  GetBlockHash :: uint256
  GetMedianTimePast :: "64 word"

text \<open>
  Every way a function of the file can end without its result: a null return
  (\<open>FileNotFound\<close> is the null return with \<^verbatim>\<open>bFileNotFound\<close> set), a C++ exception,
  a failed assertion, a read through a pointer that is null or was freed, or an index
  past the end of a vector.
\<close>

datatype error =
  FileNotFound
  | BadArrayNewLength
  | DecodeFailed
  | NullDereference
  | TestBlockValidityFailed
  | UseAfterFree
  | AssertionFailed
  | OutOfBounds

text \<open>
  A piece of a loop body either goes on (with what it read), leaves the loop (with the
  state at the \<^verbatim>\<open>break\<close>), or throws.
\<close>

datatype ('a, 'b) flow = Continue 'a | Break 'b | Throw error

subsection \<open>The environment\<close>

record chain_env =
  MAX_BLOCK_SIZE :: nat
  MAX_BLOCK_SIGOPS :: nat
  GetSerializeSize :: "CTransaction \<Rightarrow> nat"
  GetLegacySigOpCount :: "CTransaction \<Rightarrow> nat"
  push_int64 :: "int \<Rightarrow> CScript"
  push_CScriptNum :: "int \<Rightarrow> CScript"
  push_bytes :: "byte list \<Rightarrow> CScript"
  OP_0 :: byte
  GetRandHash :: uint256
  GetAdjustedTime :: "64 word"
  fPowAllowMinDifficultyBlocks :: bool
  GetNextWorkRequired :: "CBlockIndex \<Rightarrow> CBlockHeader \<Rightarrow> 32 word"
  ComputeBlockVersion :: "CBlockIndex \<Rightarrow> int"
  TestBlockValidity :: "CBlock \<Rightarrow> CBlockIndex \<Rightarrow> bool \<Rightarrow> bool"

subsection \<open>UpdateTime\<close>

text \<open>
  \<^verbatim>\<open>std::max\<close> on two \<^verbatim>\<open>int64_t\<close>: the second argument when the first is
  less, in the signed order, and the first otherwise.
\<close>

definition std_max :: "64 word \<Rightarrow> 64 word \<Rightarrow> 64 word" where
  "std_max a b = (if sint a < sint b then b else a)"

text \<open>
  \<^verbatim>\<open>UpdateTime\<close> (lines 124-131). The median time past and the adjusted time are
  \<^verbatim>\<open>int64_t\<close> (line 820); the sum and the maximum are taken in 64 bits, and the
  assignment to \<^verbatim>\<open>pblock->nTime\<close> keeps the low 32 bits. The sum
  \<^verbatim>\<open>GetMedianTimePast() + 1\<close> wraps here at \<open>2 ^ 63 - 1\<close>, where C++ leaves it
  undefined.
\<close>

definition UpdateTime ::
  "'e chain_env_scheme \<Rightarrow> 'a CBlockHeader_scheme \<Rightarrow> CBlockIndex \<Rightarrow> 'a CBlockHeader_scheme"
where
  "UpdateTime E pblock pindexPrev =
     (let pblock = pblock\<lparr>nTime := ucast (std_max (GetMedianTimePast pindexPrev + 1) (GetAdjustedTime E))\<rparr>
      in if fPowAllowMinDifficultyBlocks E
         then pblock\<lparr>nBits := GetNextWorkRequired E pindexPrev (CBlockHeader.truncate pblock)\<rparr>
         else pblock)"

text \<open>
  The nonce of a fresh template: a random 256-bit value shifted left by 32 and right by
  16 (\<^verbatim>\<open>nonce <<= 32; nonce >>= 16\<close> on \<^verbatim>\<open>arith_uint256\<close>).
\<close>

definition randomise_nonce :: "'e chain_env_scheme \<Rightarrow> uint256" where
  "randomise_nonce E = drop_bit 16 (push_bit 32 (GetRandHash E))"

subsection \<open>The snapshot file as an input stream\<close>

text \<open>
  \<^verbatim>\<open>std::ifstream\<close> in binary mode: the unread bytes and the two state bits the
  code tests. \<^verbatim>\<open>read(buf, n)\<close> fails at once on a stream that is not good; it
  succeeds when \<open>n\<close> bytes are left (without setting \<open>eofbit\<close>, also when they
  are the last ones); otherwise it consumes what is left and sets \<open>eofbit\<close> and
  \<open>failbit\<close>. Device errors (\<open>badbit\<close>) are not modelled.
\<close>

record ifstream =
  unread :: "byte list"
  eofbit :: bool
  failbit :: bool

definition ifstream_open :: "byte list \<Rightarrow> ifstream" where
  "ifstream_open bs = \<lparr>unread = bs, eofbit = False, failbit = False\<rparr>"

definition stream_read :: "nat \<Rightarrow> ifstream \<Rightarrow> byte list option \<times> ifstream" where
  "stream_read n s =
     (if eofbit s \<or> failbit s then (None, s\<lparr>failbit := True\<rparr>)
      else if n \<le> length (unread s)
        then (Some (take n (unread s)), s\<lparr>unread := drop n (unread s)\<rparr>)
      else (None, s\<lparr>unread := [], eofbit := True, failbit := True\<rparr>))"

text \<open>
  Modelled from the spec: \<^verbatim>\<open>bytes2uint64\<close> (defined outside this file). The
  eight bytes of a field are a little-endian unsigned number.
\<close>

fun bytes2uint64 :: "byte list \<Rightarrow> 64 word" where
  "bytes2uint64 [] = 0"
| "bytes2uint64 (b # bs) = ucast b + 256 * bytes2uint64 bs"

text \<open>
  \<^verbatim>\<open>strtol(transSize, &endptr, 2)\<close> of the C library on the 32-byte size field:
  leading white space, an optional sign, then binary digits up to the first other byte.
  The field is not NUL-terminated in the source; the model stops at its end.
\<close>

definition isspace :: "byte \<Rightarrow> bool" where
  "isspace c = (c = 32 \<or> (9 \<le> c \<and> c \<le> 13))"

fun binary_digits :: "int \<Rightarrow> byte list \<Rightarrow> int" where
  "binary_digits acc [] = acc"
| "binary_digits acc (c # cs) =
     (if c = 48 then binary_digits (2 * acc) cs
      else if c = 49 then binary_digits (2 * acc + 1) cs
      else acc)"

definition strtol2 :: "byte list \<Rightarrow> int" where
  "strtol2 bs =
     (case dropWhile isspace bs of
        [] \<Rightarrow> 0
      | c # cs \<Rightarrow>
          if c = 45 then - binary_digits 0 cs
          else if c = 43 then binary_digits 0 cs
          else binary_digits 0 (c # cs))"

subsection \<open>CreateNewForkBlock(bFileNotFound, nHeight)\<close>

record fork_env = chain_env +
  ForkStartHeight :: int
  ZUtxoMiningStartBlock :: int
  forkHeightRange :: int
  forkCBPerBlock :: nat
  hashPid :: "byte list"
  forkExtraHashSentinel :: uint256
  uninitialised64 :: "byte list"
  decoderawtransaction2 :: "byte list \<Rightarrow> CTransaction option"
  utxo_files :: "int \<Rightarrow> byte list option"

text \<open>
  \<open>utxo_files\<close> is the file system behind \<^verbatim>\<open>GetUTXOFileName\<close> and
  \<^verbatim>\<open>std::ifstream\<close>: the content of the snapshot file of a height, if it can be
  opened. \<open>uninitialised64\<close> is the content of the fresh 64-byte buffer that the dummy
  coinbase's \<open>scriptPubKey\<close> is copied from. \<open>decoderawtransaction2\<close> receives the
  raw bytes (the source passes them as a hex string); \<open>None\<close> is its exception.
\<close>

text \<open>One constructor for each \<^verbatim>\<open>LogPrintf("ERROR: ...")\<close> of the two read loops.\<close>

datatype log_event =
  NoMoreData_Amount
  | NoMoreData_PubKeyScriptSize
  | PubKeyScriptSize_Zero
  | NoMoreData_PubKeyScript
  | ExceedMaxSize
  | ExceedMaxSigops
  | InvalidRecordSeparator
  | NoTransactionSize
  | TransactionSizeZero
  | NoTransaction

text \<open>
  The locals that both builders keep while they fill a template: the template and the
  running size, transaction count and sig-op count.
\<close>

record build_state =
  pblocktemplate :: CBlockTemplate
  nBlockSize :: nat
  nBlockTx :: nat
  nBlockSigOps :: nat

record fork_state = build_state +
  if_utxo :: ifstream
  nBlockTotalAmount :: "64 word"
  logged :: "log_event list"

definition LogPrintf :: "log_event \<Rightarrow> fork_state \<Rightarrow> fork_state" where
  "LogPrintf e st = st\<lparr>logged := logged st @ [e]\<rparr>"

text \<open>\<^verbatim>\<open>(unsigned int)(MAX_BLOCK_SIZE - 1000)\<close>, in unsigned 32-bit arithmetic.\<close>

definition fork_nBlockMaxSize :: "'e chain_env_scheme \<Rightarrow> nat" where
  "fork_nBlockMaxSize E = nat ((int (MAX_BLOCK_SIZE E) - 1000) mod 2 ^ 32)"

text \<open>
  \<^verbatim>\<open>vtx.push_back(tx); vTxFees.push_back(0); vTxSigOps.push_back(nTxSigOps);\<close>
  and the running totals (the amount total is updated by the transparent loop only).
\<close>

definition push_tx :: "CTransaction \<Rightarrow> nat \<Rightarrow> nat \<Rightarrow> fork_state \<Rightarrow> fork_state" where
  "push_tx tx nTxSize nTxSigOps st =
     st\<lparr>pblocktemplate :=
          (pblocktemplate st)
            \<lparr>block := (block (pblocktemplate st))\<lparr>vtx := vtx (block (pblocktemplate st)) @ [tx]\<rparr>,
             vTxFees := vTxFees (pblocktemplate st) @ [0],
             vTxSigOps := vTxSigOps (pblocktemplate st) @ [int nTxSigOps]\<rparr>,
        nBlockSize := nBlockSize st + nTxSize,
        nBlockSigOps := nBlockSigOps st + nTxSigOps,
        nBlockTx := nBlockTx st + 1\<rparr>"

text \<open>
  The script of a synthetic coinbase's input (lines 401-404):
  \<^verbatim>\<open>CScript() << nHeight << CScriptNum(nBlockTx) [<< ToByteVector(hashPid)] << OP_0\<close>.
\<close>

definition fork_scriptSig :: "'e fork_env_scheme \<Rightarrow> int \<Rightarrow> nat \<Rightarrow> CScript" where
  "fork_scriptSig E nHeight nTx =
     (if nTx = 0
      then push_int64 E nHeight @ push_CScriptNum E (int nTx) @ push_bytes E (hashPid E) @ [OP_0 E]
      else push_int64 E nHeight @ push_CScriptNum E (int nTx) @ [OP_0 E])"

text \<open>
  The C++ expression \<^verbatim>\<open>!v == 0\<close> parses as \<^verbatim>\<open>(!v) == 0\<close>: the negation is a
  truth value, compared with zero as an integer.
\<close>

definition logical_not :: "CAmount \<Rightarrow> int" where
  "logical_not v = (if v = 0 then 1 else 0)"

text \<open>
  The coinbase built for a transparent record (lines 384-404), from the amount and the
  script bytes read from the file. \<open>amount\<close> is a \<^verbatim>\<open>uint64_t\<close>, so
  \<^verbatim>\<open>amount * 2\<close> is a product modulo \<open>2 ^ 64\<close>.
\<close>

definition transparent_txNew ::
  "'e fork_env_scheme \<Rightarrow> int \<Rightarrow> nat \<Rightarrow> 64 word \<Rightarrow> byte list \<Rightarrow> CTransaction"
where
  "transparent_txNew E nHeight nTx amount pks =
     (let txin = CTxIn_default\<lparr>prevout := SetNull\<rparr>;
          txout = CTxOut_default\<lparr>scriptPubKey := pks\<rparr>;
          txout = txout\<lparr>nValue := amount\<rparr>;
          txout = (if logical_not (nValue txout) = 0 then txout\<lparr>nValue := amount * 2\<rparr> else txout);
          txin = txin\<lparr>scriptSig := fork_scriptSig E nHeight nTx\<rparr>
      in CTransaction_default\<lparr>vin := [txin], vout := [txout]\<rparr>)"

text \<open>
  The size and sig-op caps and the append, shared by both loops (lines 313-333 and
  406-429): \<open>Break\<close> when a cap would be reached, the grown state otherwise.
\<close>

definition check_caps_and_push ::
  "'e fork_env_scheme \<Rightarrow> CTransaction \<Rightarrow> fork_state \<Rightarrow> fork_state + fork_state"
where
  "check_caps_and_push E tx st =
     (let nTxSize = GetSerializeSize E tx in
      if nBlockSize st + nTxSize \<ge> fork_nBlockMaxSize E then Inl (LogPrintf ExceedMaxSize st)
      else
        let nTxSigOps = GetLegacySigOpCount E tx in
        if nBlockSigOps st + nTxSigOps \<ge> MAX_BLOCK_SIGOPS E then Inl (LogPrintf ExceedMaxSigops st)
        else Inr (push_tx tx nTxSize nTxSigOps st))"

text \<open>
  The three reads at the start of a round of the transparent loop (lines 343-376): the
  amount, the script length and the script. \<^verbatim>\<open>int pbsize\<close> is the low 32 bits of
  the length field, read as a signed number; \<^verbatim>\<open>new char[pbsize]\<close> with a negative
  length throws. A zero length is logged and the round goes on.
\<close>

definition read_utxo_fields ::
  "'e fork_env_scheme \<Rightarrow> int \<Rightarrow> fork_state \<Rightarrow> (byte list \<times> byte list \<times> fork_state, fork_state) flow"
where
  "read_utxo_fields E nHeight st =
     (let nForkHeight = nHeight - ForkStartHeight E in
      case stream_read 8 (if_utxo st) of
        (None, s1) \<Rightarrow>
          Break (if \<not> eofbit s1 \<or> nForkHeight \<noteq> forkHeightRange E
                 then LogPrintf NoMoreData_Amount (st\<lparr>if_utxo := s1\<rparr>)
                 else st\<lparr>if_utxo := s1\<rparr>)
      | (Some coin, s1) \<Rightarrow>
         (case stream_read 8 s1 of
            (None, s2) \<Rightarrow> Break (LogPrintf NoMoreData_PubKeyScriptSize (st\<lparr>if_utxo := s2\<rparr>))
          | (Some pubkeysize, s2) \<Rightarrow>
             (let pbsize = sint (ucast (bytes2uint64 pubkeysize) :: 32 word);
                  st = (if pbsize = 0 then LogPrintf PubKeyScriptSize_Zero st else st)
              in if pbsize < 0 then Throw BadArrayNewLength
                 else
                   case stream_read (nat pbsize) s2 of
                     (None, s3) \<Rightarrow> Break (LogPrintf NoMoreData_PubKeyScript (st\<lparr>if_utxo := s3\<rparr>))
                   | (Some pks, s3) \<Rightarrow> Continue (coin, pks, st\<lparr>if_utxo := s3\<rparr>))))"

text \<open>The read of the record separator that ends a round (lines 431-435).\<close>

definition read_separator :: "fork_state \<Rightarrow> (fork_state, fork_state) flow" where
  "read_separator st =
     (case stream_read 1 (if_utxo st) of
        (None, s4) \<Rightarrow> Break (LogPrintf InvalidRecordSeparator (st\<lparr>if_utxo := s4\<rparr>))
      | (Some term, s4) \<Rightarrow>
          if term \<noteq> [10]
          then Break (LogPrintf InvalidRecordSeparator (st\<lparr>if_utxo := s4\<rparr>))
          else Continue (st\<lparr>if_utxo := s4\<rparr>))"

text \<open>One round of the transparent loop (lines 343-435).\<close>

definition utxo_record :: "'e fork_env_scheme \<Rightarrow> int \<Rightarrow> fork_state \<Rightarrow> (fork_state, fork_state) flow" where
  "utxo_record E nHeight st =
     (case read_utxo_fields E nHeight st of
        Break st \<Rightarrow> Break st
      | Throw e \<Rightarrow> Throw e
      | Continue (coin, pks, st) \<Rightarrow>
         (let amount = bytes2uint64 coin;
              txNew = transparent_txNew E nHeight (nBlockTx st) amount pks
          in case check_caps_and_push E txNew st of
               Inl st \<Rightarrow> Break st
             | Inr st \<Rightarrow> read_separator (st\<lparr>nBlockTotalAmount := nBlockTotalAmount st + amount\<rparr>)))"

text \<open>
  The coinbase shape given to a decoded shielded transaction (lines 300-309): one input
  with a null previous outpoint, one output of value 0; no other field is assigned.
\<close>

definition shielded_txM :: "CTransaction \<Rightarrow> CTransaction" where
  "shielded_txM txNew =
     (let txM = txNew;
          txM = txM\<lparr>vin := resize1 CTxIn_default (vin txM)\<rparr>;
          txM = txM\<lparr>vin := [(hd (vin txM))\<lparr>prevout := SetNull\<rparr>]\<rparr>;
          txM = txM\<lparr>vout := resize1 CTxOut_default (vout txM)\<rparr>;
          txM = txM\<lparr>vout := [(hd (vout txM))\<lparr>nValue := 0\<rparr>]\<rparr>
      in txM)"

text \<open>
  The two reads at the start of a round of the shielded loop (lines 244-279): the size
  field and the raw transaction. \<^verbatim>\<open>int size\<close> is the result of \<^verbatim>\<open>strtol\<close>
  cut to 32 bits.
\<close>

definition read_zutxo_fields :: "fork_state \<Rightarrow> (byte list \<times> fork_state, fork_state) flow" where
  "read_zutxo_fields st =
     (if eofbit (if_utxo st) then Break st
      else
        case stream_read 32 (if_utxo st) of
          (None, s1) \<Rightarrow> Break (LogPrintf NoTransactionSize (st\<lparr>if_utxo := s1\<rparr>))
        | (Some transSize, s1) \<Rightarrow>
           (let size = sint (word_of_int (strtol2 transSize) :: 32 word) in
            if size = 0 then Break (LogPrintf TransactionSizeZero (st\<lparr>if_utxo := s1\<rparr>))
            else if size < 0 then Throw BadArrayNewLength
            else
              case stream_read (nat size) s1 of
                (None, s2) \<Rightarrow> Break (LogPrintf NoTransaction (st\<lparr>if_utxo := s2\<rparr>))
              | (Some rawTransaction, s2) \<Rightarrow> Continue (rawTransaction, st\<lparr>if_utxo := s2\<rparr>)))"

text \<open>One round of the shielded loop (lines 244-339).\<close>

definition zutxo_record :: "'e fork_env_scheme \<Rightarrow> int \<Rightarrow> fork_state \<Rightarrow> (fork_state, fork_state) flow" where
  "zutxo_record E nHeight st =
     (case read_zutxo_fields st of
        Break st \<Rightarrow> Break st
      | Throw e \<Rightarrow> Throw e
      | Continue (rawTransaction, st) \<Rightarrow>
         (case decoderawtransaction2 E rawTransaction of
            None \<Rightarrow> Throw DecodeFailed
          | Some txNew \<Rightarrow>
             (case check_caps_and_push E (shielded_txM txNew) st of
                Inl st \<Rightarrow> Break st
              | Inr st \<Rightarrow> Continue st)))"

subsection \<open>Facts about one round\<close>

definition template_vtx :: "'a build_state_scheme \<Rightarrow> CTransaction list" where
  "template_vtx st = vtx (block (pblocktemplate st))"

text \<open>
  The fields of the record at the read position, as the documented format lays them out:
  eight bytes of amount, eight bytes of script length, the script.
\<close>

definition record_amount :: "fork_state \<Rightarrow> 64 word" where
  "record_amount st = bytes2uint64 (take 8 (unread (if_utxo st)))"

definition record_script_len :: "fork_state \<Rightarrow> 64 word" where
  "record_script_len st = bytes2uint64 (take 8 (drop 8 (unread (if_utxo st))))"

definition record_pbsize :: "fork_state \<Rightarrow> int" where
  "record_pbsize st = sint (ucast (record_script_len st) :: 32 word)"

definition record_script :: "fork_state \<Rightarrow> byte list" where
  "record_script st = take (nat (record_pbsize st)) (drop 16 (unread (if_utxo st)))"

text \<open>The coinbase that a round of the transparent loop builds from that record.\<close>

definition record_txNew :: "'e fork_env_scheme \<Rightarrow> int \<Rightarrow> fork_state \<Rightarrow> CTransaction" where
  "record_txNew E nHeight st =
     transparent_txNew E nHeight (nBlockTx st) (record_amount st) (record_script st)"

lemma stream_read_Some:
  "stream_read n s = (Some bs, s') \<Longrightarrow>
     bs = take n (unread s) \<and> unread s' = drop n (unread s) \<and> n \<le> length (unread s)
     \<and> \<not> eofbit s \<and> \<not> failbit s \<and> \<not> eofbit s' \<and> \<not> failbit s'"
  by (auto simp: stream_read_def split: if_splits)

lemma stream_read_None:
  "stream_read n s = (None, s') \<Longrightarrow> failbit s' \<and> length (unread s') \<le> length (unread s)"
  by (auto simp: stream_read_def split: if_splits)

lemma stream_read_good:
  "\<not> eofbit s \<Longrightarrow> \<not> failbit s \<Longrightarrow> n \<le> length (unread s) \<Longrightarrow>
     stream_read n s = (Some (take n (unread s)), s\<lparr>unread := drop n (unread s)\<rparr>)"
  by (simp add: stream_read_def)

lemma stream_read_short:
  "\<not> eofbit s \<Longrightarrow> \<not> failbit s \<Longrightarrow> length (unread s) < n \<Longrightarrow>
     stream_read n s = (None, s\<lparr>unread := [], eofbit := True, failbit := True\<rparr>)"
  by (simp add: stream_read_def)

lemma check_caps_and_push_Inr:
  assumes "check_caps_and_push E tx st = Inr st'"
  shows "st' = push_tx tx (GetSerializeSize E tx) (GetLegacySigOpCount E tx) st
         \<and> nBlockSize st + GetSerializeSize E tx < fork_nBlockMaxSize E
         \<and> nBlockSigOps st + GetLegacySigOpCount E tx < MAX_BLOCK_SIGOPS E"
  using assms by (simp add: check_caps_and_push_def Let_def split: if_splits)

lemma check_caps_and_push_Inl:
  assumes "check_caps_and_push E tx st = Inl st'"
  shows "st' = LogPrintf ExceedMaxSize st \<or> st' = LogPrintf ExceedMaxSigops st"
  using assms by (simp add: check_caps_and_push_def Let_def split: if_splits)

lemma check_caps_and_push_fits:
  assumes "nBlockSize st + GetSerializeSize E tx < fork_nBlockMaxSize E"
      and "nBlockSigOps st + GetLegacySigOpCount E tx < MAX_BLOCK_SIGOPS E"
  shows "check_caps_and_push E tx st
           = Inr (push_tx tx (GetSerializeSize E tx) (GetLegacySigOpCount E tx) st)"
  using assms by (simp add: check_caps_and_push_def Let_def)

lemma push_tx_simps [simp]:
  "template_vtx (push_tx tx a b st) = template_vtx st @ [tx]"
  "vTxFees (pblocktemplate (push_tx tx a b st)) = vTxFees (pblocktemplate st) @ [0]"
  "nBlockTx (push_tx tx a b st) = Suc (nBlockTx st)"
  "nBlockSize (push_tx tx a b st) = nBlockSize st + a"
  "nBlockSigOps (push_tx tx a b st) = nBlockSigOps st + b"
  "if_utxo (push_tx tx a b st) = if_utxo st"
  "logged (push_tx tx a b st) = logged st"
  by (simp_all add: push_tx_def template_vtx_def)

lemma LogPrintf_simps [simp]:
  "template_vtx (LogPrintf e st) = template_vtx st"
  "pblocktemplate (LogPrintf e st) = pblocktemplate st"
  "nBlockTx (LogPrintf e st) = nBlockTx st"
  "nBlockSize (LogPrintf e st) = nBlockSize st"
  "nBlockSigOps (LogPrintf e st) = nBlockSigOps st"
  "if_utxo (LogPrintf e st) = if_utxo st"
  "logged (LogPrintf e st) = logged st @ [e]"
  by (simp_all add: LogPrintf_def template_vtx_def)

lemma template_vtx_updates [simp]:
  "template_vtx (st\<lparr>if_utxo := s\<rparr>) = template_vtx st"
  "template_vtx (st\<lparr>nBlockTotalAmount := t\<rparr>) = template_vtx st"
  by (simp_all add: template_vtx_def)

text \<open>The outcomes of the three reads, one by one.\<close>

lemma read_utxo_fields_ContinueE:
  assumes "read_utxo_fields E nHeight st = Continue (coin, pks, st1)"
  obtains s1 s2 s3 pubkeysize where
    "stream_read 8 (if_utxo st) = (Some coin, s1)"
    "stream_read 8 s1 = (Some pubkeysize, s2)"
    "0 \<le> sint (ucast (bytes2uint64 pubkeysize) :: 32 word)"
    "stream_read (nat (sint (ucast (bytes2uint64 pubkeysize) :: 32 word))) s2 = (Some pks, s3)"
    "st1 = (if sint (ucast (bytes2uint64 pubkeysize) :: 32 word) = 0
            then LogPrintf PubKeyScriptSize_Zero st else st)\<lparr>if_utxo := s3\<rparr>"
  using assms unfolding read_utxo_fields_def Let_def
  by (simp split: prod.splits option.splits if_splits)

lemma read_utxo_fields_Continue:
  assumes "read_utxo_fields E nHeight st = Continue (coin, pks, st1)"
  shows "coin = take 8 (unread (if_utxo st))"
    and "0 \<le> record_pbsize st"
    and "pks = record_script st"
    and "pblocktemplate st1 = pblocktemplate st"
    and "nBlockTx st1 = nBlockTx st"
    and "nBlockSize st1 = nBlockSize st"
    and "nBlockSigOps st1 = nBlockSigOps st"
    and "\<not> failbit (if_utxo st1)"
    and "logged st1 = logged st @ (if record_pbsize st = 0 then [PubKeyScriptSize_Zero] else [])"
proof -
  from assms obtain s1 s2 s3 pubkeysize where
    r1: "stream_read 8 (if_utxo st) = (Some coin, s1)" and
    r2: "stream_read 8 s1 = (Some pubkeysize, s2)" and
    nn: "0 \<le> sint (ucast (bytes2uint64 pubkeysize) :: 32 word)" and
    r3: "stream_read (nat (sint (ucast (bytes2uint64 pubkeysize) :: 32 word))) s2 = (Some pks, s3)" and
    st1: "st1 = (if sint (ucast (bytes2uint64 pubkeysize) :: 32 word) = 0
                 then LogPrintf PubKeyScriptSize_Zero st else st)\<lparr>if_utxo := s3\<rparr>"
    by (rule read_utxo_fields_ContinueE)
  note f1 = stream_read_Some [OF r1] and f2 = stream_read_Some [OF r2]
    and f3 = stream_read_Some [OF r3]
  from f1 show "coin = take 8 (unread (if_utxo st))" by simp
  from f1 f2 have pk: "pubkeysize = take 8 (drop 8 (unread (if_utxo st)))" by simp
  then have len: "sint (ucast (bytes2uint64 pubkeysize) :: 32 word) = record_pbsize st"
    by (simp add: record_pbsize_def record_script_len_def)
  from nn len show "0 \<le> record_pbsize st" by simp
  from f1 f2 have "unread s2 = drop 16 (unread (if_utxo st))" by simp
  with f3 len show "pks = record_script st" by (simp add: record_script_def)
  from st1 show "pblocktemplate st1 = pblocktemplate st" "nBlockTx st1 = nBlockTx st"
    "nBlockSize st1 = nBlockSize st" "nBlockSigOps st1 = nBlockSigOps st"
    by (simp_all split: if_splits)
  from st1 f3 show "\<not> failbit (if_utxo st1)" by simp
  from st1 len show
    "logged st1 = logged st @ (if record_pbsize st = 0 then [PubKeyScriptSize_Zero] else [])"
    by simp
qed

lemma read_utxo_fields_Break:
  assumes "read_utxo_fields E nHeight st = Break st1"
  shows "pblocktemplate st1 = pblocktemplate st \<and> nBlockTx st1 = nBlockTx st
         \<and> failbit (if_utxo st1)"
  using assms unfolding read_utxo_fields_def Let_def
  by (simp split: prod.splits option.splits if_splits) (auto dest: stream_read_None)

lemma read_separator_frame:
  assumes "read_separator st = Continue st' \<or> read_separator st = Break st'"
  shows "pblocktemplate st' = pblocktemplate st \<and> nBlockTx st' = nBlockTx st
         \<and> nBlockSize st' = nBlockSize st \<and> nBlockSigOps st' = nBlockSigOps st"
  using assms unfolding read_separator_def
  by (auto split: prod.splits option.splits if_splits)

lemma read_separator_Continue_good:
  assumes "read_separator st = Continue st'"
  shows "\<not> failbit (if_utxo st')"
  using assms unfolding read_separator_def
  by (auto split: prod.splits option.splits if_splits dest: stream_read_Some)

lemma read_separator_not_Throw: "read_separator st \<noteq> Throw e"
  unfolding read_separator_def by (simp split: prod.splits option.splits)

text \<open>How a round of the transparent loop can end.\<close>

lemma utxo_record_cases:
  obtains
    (fields_Break) st1 where
      "read_utxo_fields E nHeight st = Break st1" "utxo_record E nHeight st = Break st1"
  | (fields_Throw) e where
      "read_utxo_fields E nHeight st = Throw e" "utxo_record E nHeight st = Throw e"
  | (caps) coin pks st1 st2 where
      "read_utxo_fields E nHeight st = Continue (coin, pks, st1)"
      "check_caps_and_push E (record_txNew E nHeight st) st1 = Inl st2"
      "utxo_record E nHeight st = Break st2"
  | (pushed) coin pks st1 st2 where
      "read_utxo_fields E nHeight st = Continue (coin, pks, st1)"
      "check_caps_and_push E (record_txNew E nHeight st) st1 = Inr st2"
      "utxo_record E nHeight st
         = read_separator (st2\<lparr>nBlockTotalAmount := nBlockTotalAmount st2 + record_amount st\<rparr>)"
proof (cases "read_utxo_fields E nHeight st")
  case (Break st1)
  then show ?thesis by (auto simp: utxo_record_def intro: fields_Break)
next
  case (Throw e)
  then show ?thesis by (auto simp: utxo_record_def intro: fields_Throw)
next
  case (Continue x)
  then obtain coin pks st1 where
    f: "read_utxo_fields E nHeight st = Continue (coin, pks, st1)"
    by (cases x) auto
  note facts = read_utxo_fields_Continue [OF f]
  have tx: "transparent_txNew E nHeight (nBlockTx st1) (bytes2uint64 coin) pks
              = record_txNew E nHeight st"
    using facts(1,3,5) by (simp add: record_txNew_def record_amount_def)
  have am: "bytes2uint64 coin = record_amount st"
    using facts(1) by (simp add: record_amount_def)
  show ?thesis
  proof (cases "check_caps_and_push E (record_txNew E nHeight st) st1")
    case (Inl st2)
    with f tx show ?thesis by (intro caps [of coin pks st1 st2]) (simp_all add: utxo_record_def)
  next
    case (Inr st2)
    with f tx am show ?thesis
      by (intro pushed [of coin pks st1 st2]) (simp_all add: utxo_record_def Let_def)
  qed
qed

text \<open>
  A round that does not throw leaves the template as it was, or appends the coinbase of
  the record at the read position, with fee entry 0, and counts it.
\<close>

definition appended :: "CTransaction \<Rightarrow> fork_state \<Rightarrow> fork_state \<Rightarrow> bool" where
  "appended tx st st' \<longleftrightarrow>
     template_vtx st' = template_vtx st @ [tx]
     \<and> vTxFees (pblocktemplate st') = vTxFees (pblocktemplate st) @ [0]
     \<and> nBlockTx st' = Suc (nBlockTx st)"

definition untouched :: "fork_state \<Rightarrow> fork_state \<Rightarrow> bool" where
  "untouched st st' \<longleftrightarrow> pblocktemplate st' = pblocktemplate st \<and> nBlockTx st' = nBlockTx st"

lemma utxo_record_Break:
  assumes "utxo_record E nHeight st = Break st'"
  shows "untouched st st' \<or> appended (record_txNew E nHeight st) st st'"
proof (cases rule: utxo_record_cases [of E nHeight st])
  case (fields_Break st1)
  with assms read_utxo_fields_Break [of E nHeight st st1] show ?thesis
    by (simp add: untouched_def)
next
  case (fields_Throw e)
  with assms show ?thesis by simp
next
  case (caps coin pks st1 st2)
  from check_caps_and_push_Inl [OF caps(2)] read_utxo_fields_Continue(4,5) [OF caps(1)] caps(3) assms
  show ?thesis by (auto simp: untouched_def)
next
  case (pushed coin pks st1 st2)
  let ?st3 = "st2\<lparr>nBlockTotalAmount := nBlockTotalAmount st2 + record_amount st\<rparr>"
  from pushed(3) assms have "read_separator ?st3 = Break st'" by simp
  then have "pblocktemplate st' = pblocktemplate ?st3 \<and> nBlockTx st' = nBlockTx ?st3"
    using read_separator_frame [of ?st3 st'] by simp
  with check_caps_and_push_Inr [OF pushed(2)] read_utxo_fields_Continue(4,5) [OF pushed(1)]
  show ?thesis by (simp add: appended_def template_vtx_def push_tx_def)
qed

lemma utxo_record_Continue:
  assumes "utxo_record E nHeight st = Continue st'"
  shows "appended (record_txNew E nHeight st) st st'" and "\<not> failbit (if_utxo st')"
proof -
  have "appended (record_txNew E nHeight st) st st' \<and> \<not> failbit (if_utxo st')"
  proof (cases rule: utxo_record_cases [of E nHeight st])
    case (fields_Break st1)
    with assms show ?thesis by simp
  next
    case (fields_Throw e)
    with assms show ?thesis by simp
  next
    case (caps coin pks st1 st2)
    with assms show ?thesis by simp
  next
    case (pushed coin pks st1 st2)
    let ?st3 = "st2\<lparr>nBlockTotalAmount := nBlockTotalAmount st2 + record_amount st\<rparr>"
    from pushed(3) assms have c: "read_separator ?st3 = Continue st'" by simp
    then have "pblocktemplate st' = pblocktemplate ?st3 \<and> nBlockTx st' = nBlockTx ?st3"
      using read_separator_frame [of ?st3 st'] by simp
    with check_caps_and_push_Inr [OF pushed(2)] read_utxo_fields_Continue(4,5) [OF pushed(1)]
      read_separator_Continue_good [OF c]
    show ?thesis by (simp add: appended_def template_vtx_def push_tx_def)
  qed
  then show "appended (record_txNew E nHeight st) st st'" and "\<not> failbit (if_utxo st')"
    by simp_all
qed

lemma utxo_record_Continue_nBlockTx:
  "utxo_record E nHeight st = Continue st' \<Longrightarrow> nBlockTx st' = Suc (nBlockTx st)"
  by (drule utxo_record_Continue(1)) (simp add: appended_def)

text \<open>The shielded record at the read position: the size field and the raw transaction.\<close>

definition record_tx_size :: "fork_state \<Rightarrow> int" where
  "record_tx_size st = sint (word_of_int (strtol2 (take 32 (unread (if_utxo st)))) :: 32 word)"

definition record_rawTransaction :: "fork_state \<Rightarrow> byte list" where
  "record_rawTransaction st = take (nat (record_tx_size st)) (drop 32 (unread (if_utxo st)))"

lemma read_zutxo_fields_ContinueE:
  assumes "read_zutxo_fields st = Continue (raw, st1)"
  obtains transSize s1 s2 where
    "stream_read 32 (if_utxo st) = (Some transSize, s1)"
    "0 < sint (word_of_int (strtol2 transSize) :: 32 word)"
    "stream_read (nat (sint (word_of_int (strtol2 transSize) :: 32 word))) s1 = (Some raw, s2)"
    "st1 = st\<lparr>if_utxo := s2\<rparr>"
  using assms unfolding read_zutxo_fields_def Let_def
  by (simp split: prod.splits option.splits if_splits)

lemma read_zutxo_fields_Continue:
  assumes "read_zutxo_fields st = Continue (raw, st1)"
  shows "raw = record_rawTransaction st"
    and "0 < record_tx_size st"
    and "length (unread (if_utxo st1)) + 33 \<le> length (unread (if_utxo st))"
    and "pblocktemplate st1 = pblocktemplate st"
    and "nBlockTx st1 = nBlockTx st"
    and "logged st1 = logged st"
proof -
  from assms obtain transSize s1 s2 where
    r1: "stream_read 32 (if_utxo st) = (Some transSize, s1)" and
    pos: "0 < sint (word_of_int (strtol2 transSize) :: 32 word)" and
    r2: "stream_read (nat (sint (word_of_int (strtol2 transSize) :: 32 word))) s1 = (Some raw, s2)" and
    st1: "st1 = st\<lparr>if_utxo := s2\<rparr>"
    by (rule read_zutxo_fields_ContinueE)
  note f1 = stream_read_Some [OF r1] and f2 = stream_read_Some [OF r2]
  from f1 have sz: "sint (word_of_int (strtol2 transSize) :: 32 word) = record_tx_size st"
    by (simp add: record_tx_size_def)
  from pos sz show "0 < record_tx_size st" by simp
  from f1 f2 sz show "raw = record_rawTransaction st"
    by (simp add: record_rawTransaction_def)
  from pos have n: "0 < nat (sint (word_of_int (strtol2 transSize) :: 32 word))" by simp
  from f1 have l1: "length (unread s1) + 32 = length (unread (if_utxo st))" by simp
  from f2 have l2: "length (unread s2) + nat (sint (word_of_int (strtol2 transSize) :: 32 word))
                      = length (unread s1)" by simp
  from n l1 l2 st1 show "length (unread (if_utxo st1)) + 33 \<le> length (unread (if_utxo st))"
    by simp
  from st1 show "pblocktemplate st1 = pblocktemplate st" "nBlockTx st1 = nBlockTx st"
    "logged st1 = logged st"
    by simp_all
qed

lemma read_zutxo_fields_Break:
  assumes "read_zutxo_fields st = Break st1"
  shows "pblocktemplate st1 = pblocktemplate st \<and> nBlockTx st1 = nBlockTx st
         \<and> length (unread (if_utxo st1)) \<le> length (unread (if_utxo st))"
  using assms unfolding read_zutxo_fields_def Let_def
  by (simp split: prod.splits option.splits if_splits)
     (auto dest: stream_read_None dest!: stream_read_Some)

lemma zutxo_record_Continue:
  assumes "zutxo_record E nHeight st = Continue st'"
  obtains st1 txNew where
    "read_zutxo_fields st = Continue (record_rawTransaction st, st1)"
    "decoderawtransaction2 E (record_rawTransaction st) = Some txNew"
    "check_caps_and_push E (shielded_txM txNew) st1 = Inr st'"
proof -
  from assms obtain raw st1 txNew where
    f: "read_zutxo_fields st = Continue (raw, st1)" and
    d: "decoderawtransaction2 E raw = Some txNew" and
    p: "check_caps_and_push E (shielded_txM txNew) st1 = Inr st'"
    by (auto simp: zutxo_record_def split: flow.splits option.splits sum.splits)
  from read_zutxo_fields_Continue(1) [OF f] f d p that show ?thesis by simp
qed

lemma zutxo_record_Continue_appended:
  assumes "zutxo_record E nHeight st = Continue st'"
  shows "\<exists>txNew. decoderawtransaction2 E (record_rawTransaction st) = Some txNew
           \<and> appended (shielded_txM txNew) st st'"
    and "length (unread (if_utxo st')) + 33 \<le> length (unread (if_utxo st))"
proof -
  from assms obtain st1 txNew where
    f: "read_zutxo_fields st = Continue (record_rawTransaction st, st1)" and
    d: "decoderawtransaction2 E (record_rawTransaction st) = Some txNew" and
    p: "check_caps_and_push E (shielded_txM txNew) st1 = Inr st'"
    by (rule zutxo_record_Continue)
  note facts = read_zutxo_fields_Continue [OF f]
  from check_caps_and_push_Inr [OF p] facts(4,5)
  have "appended (shielded_txM txNew) st st'"
    by (simp add: appended_def template_vtx_def push_tx_def)
  with d show "\<exists>txNew. decoderawtransaction2 E (record_rawTransaction st) = Some txNew
           \<and> appended (shielded_txM txNew) st st'" by blast
  from check_caps_and_push_Inr [OF p] facts(3)
  show "length (unread (if_utxo st')) + 33 \<le> length (unread (if_utxo st))" by simp
qed

lemma zutxo_record_Break:
  assumes "zutxo_record E nHeight st = Break st'"
  shows "untouched st st'"
    and "length (unread (if_utxo st')) \<le> length (unread (if_utxo st))"
proof -
  have "untouched st st' \<and> length (unread (if_utxo st')) \<le> length (unread (if_utxo st))"
  proof (cases "read_zutxo_fields st")
    case (Break st1)
    with assms read_zutxo_fields_Break [of st st1] show ?thesis
      by (simp add: zutxo_record_def untouched_def)
  next
    case (Throw e)
    with assms show ?thesis by (simp add: zutxo_record_def)
  next
    case (Continue x)
    then obtain raw st1 where f: "read_zutxo_fields st = Continue (raw, st1)"
      by (cases x) auto
    with assms obtain txNew st2 where
      p: "check_caps_and_push E (shielded_txM txNew) st1 = Inl st2" and "st' = st2"
      by (auto simp: zutxo_record_def split: option.splits sum.splits)
    with check_caps_and_push_Inl [OF p] read_zutxo_fields_Continue(3,4,5) [OF f]
    show ?thesis by (auto simp: untouched_def)
  qed
  then show "untouched st st'"
    and "length (unread (if_utxo st')) \<le> length (unread (if_utxo st))" by simp_all
qed

lemma zutxo_record_Continue_unread:
  "zutxo_record E nHeight st = Continue st' \<Longrightarrow>
     length (unread (if_utxo st')) < length (unread (if_utxo st))"
  by (drule zutxo_record_Continue_appended(2)) simp

subsection \<open>The loops and the builders\<close>

text \<open>
  The transparent loop:
  \<^verbatim>\<open>while (if_utxo && nBlockTx < forkCBPerBlock) { ... }\<close>.
\<close>

function utxo_loop :: "'e fork_env_scheme \<Rightarrow> int \<Rightarrow> fork_state \<Rightarrow> error + fork_state" where
  "utxo_loop E nHeight st =
     (if \<not> failbit (if_utxo st) \<and> nBlockTx st < forkCBPerBlock E
      then (case utxo_record E nHeight st of
              Continue st' \<Rightarrow> utxo_loop E nHeight st'
            | Break st' \<Rightarrow> Inr st'
            | Throw e \<Rightarrow> Inl e)
      else Inr st)"
  by pat_completeness auto
termination
  by (relation "measure (\<lambda>(E, nHeight, st). forkCBPerBlock E - nBlockTx st)")
     (auto dest: utxo_record_Continue_nBlockTx)

text \<open>The shielded loop: \<^verbatim>\<open>while (true) { ... }\<close>, left only by \<^verbatim>\<open>break\<close>.\<close>

function zutxo_loop :: "'e fork_env_scheme \<Rightarrow> int \<Rightarrow> fork_state \<Rightarrow> error + fork_state" where
  "zutxo_loop E nHeight st =
     (case zutxo_record E nHeight st of
        Continue st' \<Rightarrow> zutxo_loop E nHeight st'
      | Break st' \<Rightarrow> Inr st'
      | Throw e \<Rightarrow> Inl e)"
  by pat_completeness auto
termination
  by (relation "measure (\<lambda>(E, nHeight, st). length (unread (if_utxo st)))")
     (auto dest: zutxo_record_Continue_unread)

declare utxo_loop.simps [simp del] zutxo_loop.simps [simp del]

text \<open>The dummy coinbase and the state before the first record (lines 207-236).\<close>

definition dummy_txCoinbase :: "'e fork_env_scheme \<Rightarrow> int \<Rightarrow> CTransaction" where
  "dummy_txCoinbase E nHeight =
     CTransaction_default
       \<lparr>vin := [CTxIn_default
                 \<lparr>prevout := SetNull,
                  scriptSig := push_int64 E nHeight @ push_CScriptNum E 0
                                 @ push_bytes E (hashPid E) @ [OP_0 E]\<rparr>],
        vout := [CTxOut_default\<lparr>nValue := 0, scriptPubKey := uninitialised64 E\<rparr>]\<rparr>"

definition fork_initial_state :: "'e fork_env_scheme \<Rightarrow> int \<Rightarrow> byte list \<Rightarrow> fork_state" where
  "fork_initial_state E nHeight file =
     \<lparr>pblocktemplate =
        \<lparr>block = CBlock_default\<lparr>vtx := [dummy_txCoinbase E nHeight]\<rparr>,
         vTxFees = [- 1], vTxSigOps = [- 1]\<rparr>,
      nBlockSize = 1000, nBlockTx = 0, nBlockSigOps = 100,
      if_utxo = ifstream_open file, nBlockTotalAmount = 0, logged = []\<rparr>"

text \<open>
  The inner builder. Its result is the final state of the function: the template it
  returns (\<open>pblocktemplate\<close>) together with the counters and the errors it logged.
\<close>

definition CreateNewForkBlock_at :: "'e fork_env_scheme \<Rightarrow> int \<Rightarrow> error + fork_state" where
  "CreateNewForkBlock_at E nHeight =
     (case utxo_files E nHeight of
        None \<Rightarrow> Inl FileNotFound
      | Some file \<Rightarrow>
         (case (if nHeight = ZUtxoMiningStartBlock E
                then zutxo_loop E nHeight (fork_initial_state E nHeight file)
                else utxo_loop E nHeight (fork_initial_state E nHeight file)) of
            Inl e \<Rightarrow> Inl e
          | Inr st \<Rightarrow>
              Inr (st\<lparr>pblocktemplate :=
                        (pblocktemplate st)
                          \<lparr>block := (block (pblocktemplate st))
                                      \<lparr>nNonce := randomise_nonce E,
                                       hashReserved := forkExtraHashSentinel E,
                                       nSolution := []\<rparr>\<rparr>\<rparr>)))"

text \<open>
  The outer builder (lines 133-183). It reads the tip once before the loop
  (\<open>tipHeight\<close>) and once at the end of every round; the list holds the tips it will
  see there, and \<open>None\<close> means that the tip was still moving when the list ran out. An
  exception of the inner builder leaves at once; its null return is written through
  when the tip has not moved.
\<close>

fun CreateNewForkBlock ::
  "'e fork_env_scheme \<Rightarrow> int \<Rightarrow> CBlockIndex list \<Rightarrow> (error + CBlockTemplate) option"
where
  "CreateNewForkBlock E tipHeight [] = None"
| "CreateNewForkBlock E tipHeight (pindexPrev # later) =
     (let snappedHeight = tipHeight;
          ret = CreateNewForkBlock_at E (snappedHeight + 1)
      in case ret of
           Inl FileNotFound \<Rightarrow>
             if index_nHeight pindexPrev \<noteq> snappedHeight
             then CreateNewForkBlock E (index_nHeight pindexPrev) later
             else Some (Inl NullDereference)
         | Inl e \<Rightarrow> Some (Inl e)
         | Inr st \<Rightarrow>
             if index_nHeight pindexPrev \<noteq> snappedHeight
             then CreateNewForkBlock E (index_nHeight pindexPrev) later
             else
               let pblock = block (pblocktemplate st);
                   pblock = pblock\<lparr>hashPrevBlock := GetBlockHash pindexPrev\<rparr>;
                   pblock = UpdateTime E pblock pindexPrev;
                   pblock = pblock\<lparr>nBits := GetNextWorkRequired E pindexPrev
                                                (CBlockHeader.truncate pblock)\<rparr>;
                   pblock = pblock\<lparr>hdr_nVersion := ComputeBlockVersion E pindexPrev\<rparr>
               in if \<not> TestBlockValidity E pblock pindexPrev True
                  then Some (Inl TestBlockValidityFailed)
                  else Some (Inr ((pblocktemplate st)\<lparr>block := pblock\<rparr>)))"

subsection \<open>Facts about the loops\<close>

text \<open>
  A property that holds before a loop and is kept by every round that does not throw
  holds for the state the loop ends in.
\<close>

lemma utxo_loop_rule:
  assumes "utxo_loop E nHeight st = Inr st'"
    and "P st"
    and "\<And>s s'. P s \<Longrightarrow> \<not> failbit (if_utxo s) \<Longrightarrow> nBlockTx s < forkCBPerBlock E \<Longrightarrow>
           utxo_record E nHeight s = Continue s' \<or> utxo_record E nHeight s = Break s' \<Longrightarrow> P s'"
  shows "P st'"
  using assms
proof (induction E nHeight st rule: utxo_loop.induct)
  case (1 E nHeight st)
  have step: "P s'" if "P s" "\<not> failbit (if_utxo s)" "nBlockTx s < forkCBPerBlock E"
    "utxo_record E nHeight s = Continue s' \<or> utxo_record E nHeight s = Break s'" for s s'
    using "1.prems"(3) that by blast
  show ?case
  proof (cases "\<not> failbit (if_utxo st) \<and> nBlockTx st < forkCBPerBlock E")
    case False
    with "1.prems"(1,2) show ?thesis by (simp add: utxo_loop.simps [of E nHeight st])
  next
    case True
    show ?thesis
    proof (cases "utxo_record E nHeight st")
      case (Continue s)
      with True "1.prems"(1) have run: "utxo_loop E nHeight s = Inr st'"
        by (simp add: utxo_loop.simps [of E nHeight st])
      from step [OF "1.prems"(2)] True Continue have "P s" by blast
      show ?thesis
        by (rule "1.IH" [OF True Continue run \<open>P s\<close>]) (rule step, assumption+)
    next
      case (Break s)
      with True "1.prems"(1) have "st' = s" by (simp add: utxo_loop.simps [of E nHeight st])
      with step [OF "1.prems"(2)] True Break show ?thesis by blast
    next
      case (Throw e)
      with True "1.prems"(1) show ?thesis by (simp add: utxo_loop.simps [of E nHeight st])
    qed
  qed
qed

lemma zutxo_loop_rule:
  assumes "zutxo_loop E nHeight st = Inr st'"
    and "P st"
    and "\<And>s s'. P s \<Longrightarrow>
           zutxo_record E nHeight s = Continue s' \<or> zutxo_record E nHeight s = Break s' \<Longrightarrow> P s'"
  shows "P st'"
  using assms
proof (induction E nHeight st rule: zutxo_loop.induct)
  case (1 E nHeight st)
  have step: "P s'" if "P s"
    "zutxo_record E nHeight s = Continue s' \<or> zutxo_record E nHeight s = Break s'" for s s'
    using "1.prems"(3) that by blast
  show ?case
  proof (cases "zutxo_record E nHeight st")
    case (Continue s)
    with "1.prems"(1) have run: "zutxo_loop E nHeight s = Inr st'"
      by (simp add: zutxo_loop.simps [of E nHeight st])
    from step [OF "1.prems"(2)] Continue have "P s" by blast
    show ?thesis
      by (rule "1.IH" [OF Continue run \<open>P s\<close>]) (rule step, assumption+)
  next
    case (Break s)
    with "1.prems"(1) have "st' = s" by (simp add: zutxo_loop.simps [of E nHeight st])
    with step [OF "1.prems"(2)] Break show ?thesis by blast
  next
    case (Throw e)
    with "1.prems"(1) show ?thesis by (simp add: zutxo_loop.simps [of E nHeight st])
  qed
qed

text \<open>
  \<open>grown_by st txs st'\<close>: from \<open>st\<close> to \<open>st'\<close> the template gained the
  transactions \<open>txs\<close>, each with fee entry 0, and the counter counted them.
\<close>

definition grown_by :: "fork_state \<Rightarrow> CTransaction list \<Rightarrow> fork_state \<Rightarrow> bool" where
  "grown_by st txs st' \<longleftrightarrow>
     template_vtx st' = template_vtx st @ txs
     \<and> vTxFees (pblocktemplate st') = vTxFees (pblocktemplate st) @ replicate (length txs) 0
     \<and> nBlockTx st' = nBlockTx st + length txs"

lemma grown_by_refl: "grown_by st [] st"
  by (simp add: grown_by_def)

lemma grown_by_untouched: "grown_by st txs s \<Longrightarrow> untouched s s' \<Longrightarrow> grown_by st txs s'"
  by (simp add: grown_by_def untouched_def template_vtx_def)

lemma grown_by_appended:
  "grown_by st txs s \<Longrightarrow> appended tx s s' \<Longrightarrow> grown_by st (txs @ [tx]) s'"
  by (simp add: grown_by_def appended_def replicate_append_same)

text \<open>The transparent loop appends coinbases built by \<open>transparent_txNew\<close>, numbered
  from the counter, and stops at the cap.\<close>

definition transparent_run ::
  "'e fork_env_scheme \<Rightarrow> int \<Rightarrow> fork_state \<Rightarrow> CTransaction list \<Rightarrow> fork_state \<Rightarrow> bool"
where
  "transparent_run E nHeight st txs st' \<longleftrightarrow>
     grown_by st txs st'
     \<and> (\<forall>i < length txs. \<exists>amount pks.
           txs ! i = transparent_txNew E nHeight (nBlockTx st + i) amount pks)
     \<and> nBlockTx st' \<le> max (nBlockTx st) (forkCBPerBlock E)"

lemma transparent_run_step:
  assumes run: "transparent_run E nHeight st txs s"
    and lt: "nBlockTx s < forkCBPerBlock E"
    and app: "appended (record_txNew E nHeight s) s s'"
  shows "transparent_run E nHeight st (txs @ [record_txNew E nHeight s]) s'"
proof -
  from run have g: "grown_by st txs s" and
    ix: "\<forall>i < length txs. \<exists>amount pks.
           txs ! i = transparent_txNew E nHeight (nBlockTx st + i) amount pks"
    by (simp_all add: transparent_run_def)
  from g have n: "nBlockTx s = nBlockTx st + length txs" by (simp add: grown_by_def)
  have "\<exists>amount pks. (txs @ [record_txNew E nHeight s]) ! i
          = transparent_txNew E nHeight (nBlockTx st + i) amount pks"
    if "i < length (txs @ [record_txNew E nHeight s])" for i
  proof (cases "i < length txs")
    case True
    with ix show ?thesis by (simp add: nth_append)
  next
    case False
    with that have "i = length txs" by simp
    with n show ?thesis by (auto simp: nth_append record_txNew_def)
  qed
  moreover from app lt have "nBlockTx s' \<le> max (nBlockTx st) (forkCBPerBlock E)"
    by (simp add: appended_def)
  ultimately show ?thesis
    using grown_by_appended [OF g app] by (simp add: transparent_run_def)
qed

lemma transparent_run_untouched:
  "transparent_run E nHeight st txs s \<Longrightarrow> untouched s s' \<Longrightarrow> transparent_run E nHeight st txs s'"
  by (auto simp: transparent_run_def untouched_def intro: grown_by_untouched)

lemma utxo_loop_run:
  assumes "utxo_loop E nHeight st = Inr st'"
  shows "\<exists>txs. transparent_run E nHeight st txs st'"
proof (rule utxo_loop_rule [OF assms, where P = "\<lambda>s. \<exists>txs. transparent_run E nHeight st txs s"])
  show "\<exists>txs. transparent_run E nHeight st txs st"
    by (rule exI [of _ "[]"]) (simp add: transparent_run_def grown_by_refl)
next
  fix s s'
  assume "\<exists>txs. transparent_run E nHeight st txs s"
    and lt: "nBlockTx s < forkCBPerBlock E"
    and r: "utxo_record E nHeight s = Continue s' \<or> utxo_record E nHeight s = Break s'"
  then obtain txs where run: "transparent_run E nHeight st txs s" by blast
  from r have "untouched s s' \<or> appended (record_txNew E nHeight s) s s'"
    by (auto dest: utxo_record_Continue(1) utxo_record_Break)
  then show "\<exists>txs. transparent_run E nHeight st txs s'"
    using transparent_run_untouched [OF run] transparent_run_step [OF run lt] by blast
qed

text \<open>The shielded loop appends reshaped decoded transactions; every one of them used
  up at least 33 bytes of the file. The cap is not consulted.\<close>

definition shielded_run ::
  "'e fork_env_scheme \<Rightarrow> fork_state \<Rightarrow> CTransaction list \<Rightarrow> fork_state \<Rightarrow> bool"
where
  "shielded_run E st txs st' \<longleftrightarrow>
     grown_by st txs st'
     \<and> (\<forall>i < length txs. \<exists>raw txNew.
           decoderawtransaction2 E raw = Some txNew \<and> txs ! i = shielded_txM txNew)
     \<and> 33 * length txs + length (unread (if_utxo st')) \<le> length (unread (if_utxo st))"

lemma zutxo_loop_run:
  assumes "zutxo_loop E nHeight st = Inr st'"
  shows "\<exists>txs. shielded_run E st txs st'"
proof (rule zutxo_loop_rule [OF assms, where P = "\<lambda>s. \<exists>txs. shielded_run E st txs s"])
  show "\<exists>txs. shielded_run E st txs st"
    by (rule exI [of _ "[]"]) (simp add: shielded_run_def grown_by_refl)
next
  fix s s'
  assume "\<exists>txs. shielded_run E st txs s"
    and r: "zutxo_record E nHeight s = Continue s' \<or> zutxo_record E nHeight s = Break s'"
  then obtain txs where run: "shielded_run E st txs s" by blast
  then have g: "grown_by st txs s" and
    ix: "\<forall>i < length txs. \<exists>raw txNew.
           decoderawtransaction2 E raw = Some txNew \<and> txs ! i = shielded_txM txNew" and
    len: "33 * length txs + length (unread (if_utxo s)) \<le> length (unread (if_utxo st))"
    by (simp_all add: shielded_run_def)
  from r show "\<exists>txs. shielded_run E st txs s'"
  proof
    assume c: "zutxo_record E nHeight s = Continue s'"
    from zutxo_record_Continue_appended(1) [OF c] obtain txNew where
      d: "decoderawtransaction2 E (record_rawTransaction s) = Some txNew" and
      app: "appended (shielded_txM txNew) s s'" by blast
    have "\<exists>raw txNew'. decoderawtransaction2 E raw = Some txNew'
            \<and> (txs @ [shielded_txM txNew]) ! i = shielded_txM txNew'"
      if "i < length (txs @ [shielded_txM txNew])" for i
    proof (cases "i < length txs")
      case True
      with ix show ?thesis by (simp add: nth_append)
    next
      case False
      with that have "i = length txs" by simp
      with d show ?thesis by (auto simp: nth_append)
    qed
    moreover from zutxo_record_Continue_appended(2) [OF c] len
    have "33 * length (txs @ [shielded_txM txNew]) + length (unread (if_utxo s'))
            \<le> length (unread (if_utxo st))" by simp
    ultimately have "shielded_run E st (txs @ [shielded_txM txNew]) s'"
      using grown_by_appended [OF g app] by (simp add: shielded_run_def)
    then show ?thesis by blast
  next
    assume b: "zutxo_record E nHeight s = Break s'"
    from zutxo_record_Break [OF b] g ix len have "shielded_run E st txs s'"
      by (auto simp: shielded_run_def intro: grown_by_untouched)
    then show ?thesis by blast
  qed
qed

subsection \<open>Facts about the inner fork builder\<close>

lemma fork_initial_state_simps [simp]:
  "template_vtx (fork_initial_state E nHeight file) = [dummy_txCoinbase E nHeight]"
  "vTxFees (pblocktemplate (fork_initial_state E nHeight file)) = [- 1]"
  "nBlockTx (fork_initial_state E nHeight file) = 0"
  "unread (if_utxo (fork_initial_state E nHeight file)) = file"
  "eofbit (if_utxo (fork_initial_state E nHeight file)) = False"
  "failbit (if_utxo (fork_initial_state E nHeight file)) = False"
  "logged (fork_initial_state E nHeight file) = []"
  "nBlockSize (fork_initial_state E nHeight file) = 1000"
  "nBlockSigOps (fork_initial_state E nHeight file) = 100"
  by (simp_all add: fork_initial_state_def template_vtx_def ifstream_open_def)

text \<open>What the inner builder returns is the state its loop ended in, with a fresh header.\<close>

lemma CreateNewForkBlock_at_Inr:
  assumes "CreateNewForkBlock_at E nHeight = Inr st"
  obtains bytes st0 where
    "utxo_files E nHeight = Some bytes"
    "nHeight \<noteq> ZUtxoMiningStartBlock E \<Longrightarrow>
       utxo_loop E nHeight (fork_initial_state E nHeight bytes) = Inr st0"
    "nHeight = ZUtxoMiningStartBlock E \<Longrightarrow>
       zutxo_loop E nHeight (fork_initial_state E nHeight bytes) = Inr st0"
    "template_vtx st = template_vtx st0"
    "vTxFees (pblocktemplate st) = vTxFees (pblocktemplate st0)"
    "nBlockTx st = nBlockTx st0"
    "logged st = logged st0"
    "if_utxo st = if_utxo st0"
    "hashReserved (block (pblocktemplate st)) = forkExtraHashSentinel E"
  using assms unfolding CreateNewForkBlock_at_def
  by (auto simp: template_vtx_def split: option.splits sum.splits if_splits)

lemma fork_template_transparent:
  assumes "CreateNewForkBlock_at E nHeight = Inr st"
    and "nHeight \<noteq> ZUtxoMiningStartBlock E"
  obtains txs where
    "template_vtx st = dummy_txCoinbase E nHeight # txs"
    "vTxFees (pblocktemplate st) = - 1 # replicate (length txs) 0"
    "nBlockTx st = length txs"
    "length txs \<le> forkCBPerBlock E"
    "\<And>i. i < length txs \<Longrightarrow> \<exists>amount pks. txs ! i = transparent_txNew E nHeight i amount pks"
proof -
  from assms obtain bytes st0 where
    run: "utxo_loop E nHeight (fork_initial_state E nHeight bytes) = Inr st0" and
    eq: "template_vtx st = template_vtx st0"
        "vTxFees (pblocktemplate st) = vTxFees (pblocktemplate st0)"
        "nBlockTx st = nBlockTx st0"
    by (auto elim!: CreateNewForkBlock_at_Inr)
  from utxo_loop_run [OF run] obtain txs where
    "transparent_run E nHeight (fork_initial_state E nHeight bytes) txs st0" by blast
  with eq have
    "template_vtx st = dummy_txCoinbase E nHeight # txs"
    "vTxFees (pblocktemplate st) = - 1 # replicate (length txs) 0"
    "nBlockTx st = length txs"
    "length txs \<le> forkCBPerBlock E"
    "\<And>i. i < length txs \<Longrightarrow> \<exists>amount pks. txs ! i = transparent_txNew E nHeight i amount pks"
    by (simp_all add: transparent_run_def grown_by_def)
  then show ?thesis by (rule that)
qed

lemma fork_template_shielded:
  assumes "CreateNewForkBlock_at E nHeight = Inr st"
    and "nHeight = ZUtxoMiningStartBlock E"
  obtains txs bytes where
    "utxo_files E nHeight = Some bytes"
    "template_vtx st = dummy_txCoinbase E nHeight # txs"
    "vTxFees (pblocktemplate st) = - 1 # replicate (length txs) 0"
    "nBlockTx st = length txs"
    "33 * length txs \<le> length bytes"
    "\<And>i. i < length txs \<Longrightarrow>
       \<exists>raw txNew. decoderawtransaction2 E raw = Some txNew \<and> txs ! i = shielded_txM txNew"
proof -
  from assms obtain bytes st0 where
    bytes: "utxo_files E nHeight = Some bytes" and
    run: "zutxo_loop E nHeight (fork_initial_state E nHeight bytes) = Inr st0" and
    eq: "template_vtx st = template_vtx st0"
        "vTxFees (pblocktemplate st) = vTxFees (pblocktemplate st0)"
        "nBlockTx st = nBlockTx st0"
    by (auto elim!: CreateNewForkBlock_at_Inr)
  from zutxo_loop_run [OF run] obtain txs where
    "shielded_run E (fork_initial_state E nHeight bytes) txs st0" by blast
  with eq have
    "template_vtx st = dummy_txCoinbase E nHeight # txs"
    "vTxFees (pblocktemplate st) = - 1 # replicate (length txs) 0"
    "nBlockTx st = length txs"
    "33 * length txs \<le> length bytes"
    "\<And>i. i < length txs \<Longrightarrow>
       \<exists>raw txNew. decoderawtransaction2 E raw = Some txNew \<and> txs ! i = shielded_txM txNew"
    by (simp_all add: shielded_run_def grown_by_def)
  with bytes show ?thesis by (rule that)
qed

text \<open>The shapes of the three kinds of transaction a fork template holds.\<close>

lemma IsCoinBase_dummy_txCoinbase: "IsCoinBase (dummy_txCoinbase E nHeight)"
  by (simp add: IsCoinBase_def dummy_txCoinbase_def IsNull_def SetNull_def)

lemma IsCoinBase_transparent_txNew: "IsCoinBase (transparent_txNew E nHeight nTx amount pks)"
  by (simp add: IsCoinBase_def transparent_txNew_def Let_def IsNull_def SetNull_def)

lemma IsCoinBase_shielded_txM: "IsCoinBase (shielded_txM txNew)"
  by (simp add: IsCoinBase_def shielded_txM_def Let_def IsNull_def SetNull_def)

lemma transparent_txNew_vin:
  "vin (transparent_txNew E nHeight nTx amount pks)
     = [\<lparr>prevout = SetNull, scriptSig = fork_scriptSig E nHeight nTx, nSequence = - 1\<rparr>]"
  by (simp add: transparent_txNew_def Let_def CTxIn_default_def)


lemma shielded_txM_shape:
  "vin (shielded_txM txNew)
     = [\<lparr>prevout = SetNull,
         scriptSig = (case vin txNew of [] \<Rightarrow> [] | i # _ \<Rightarrow> scriptSig i),
         nSequence = (case vin txNew of [] \<Rightarrow> - 1 | i # _ \<Rightarrow> nSequence i)\<rparr>]"
  "vout (shielded_txM txNew)
     = [\<lparr>nValue = 0,
         scriptPubKey = (case vout txNew of [] \<Rightarrow> [] | out # _ \<Rightarrow> scriptPubKey out)\<rparr>]"
  "vjoinsplit (shielded_txM txNew) = vjoinsplit txNew"
  "joinSplitPubKey (shielded_txM txNew) = joinSplitPubKey txNew"
  "joinSplitSig (shielded_txM txNew) = joinSplitSig txNew"
  "nVersion (shielded_txM txNew) = nVersion txNew"
  "nLockTime (shielded_txM txNew) = nLockTime txNew"
  by (simp_all add: shielded_txM_def Let_def resize1_def CTxIn_default_def CTxOut_default_def
        split: list.splits)

subsection \<open>A sample environment\<close>

text \<open>
  Concrete stand-ins for the functions the file calls, used to run the model on sample
  inputs: sizes are byte counts of a plain serialisation, sig-ops are the
  \<^verbatim>\<open>OP_CHECKSIG\<close> bytes of the output scripts, a push is a length byte followed by
  the data (four little-endian bytes for a number), and the decoder reads a raw
  transaction whose first byte says whether it has an input and whose other bytes are
  that input's script.
\<close>

definition demo_GetSerializeSize :: "CTransaction \<Rightarrow> nat" where
  "demo_GetSerializeSize tx =
     10 + sum_list (map (\<lambda>i. 41 + length (scriptSig i)) (vin tx))
        + sum_list (map (\<lambda>out. 9 + length (scriptPubKey out)) (vout tx))
        + sum_list (map length (vjoinsplit tx))"

definition demo_GetLegacySigOpCount :: "CTransaction \<Rightarrow> nat" where
  "demo_GetLegacySigOpCount tx =
     length (filter (\<lambda>b. b = 172) (concat (map scriptPubKey (vout tx))))"

definition demo_push_bytes :: "byte list \<Rightarrow> CScript" where
  "demo_push_bytes bs = of_nat (length bs) # bs"

definition demo_push_int :: "int \<Rightarrow> CScript" where
  "demo_push_int v =
     demo_push_bytes [of_int v, of_int (v div 256), of_int (v div 65536), of_int (v div 16777216)]"

definition demo_decode :: "byte list \<Rightarrow> CTransaction option" where
  "demo_decode raw =
     (case raw of
        [] \<Rightarrow> None
      | b # bs \<Rightarrow>
          Some (CTransaction_default
                 \<lparr>vin := (if b = 0 then []
                           else [\<lparr>prevout = \<lparr>outpoint_hash = 7, outpoint_n = 0\<rparr>,
                                  scriptSig = bs, nSequence = - 1\<rparr>]),
                  vjoinsplit := [raw]\<rparr>))"

text \<open>
  The sample fork environment: the fork window starts at height 100 and is 200 blocks
  long, height 150 uses the shielded format, and every height's snapshot file has the
  content \<open>file\<close>.
\<close>

definition demo_fork_env :: "nat \<Rightarrow> byte list \<Rightarrow> fork_env" where
  "demo_fork_env cap file =
     \<lparr>MAX_BLOCK_SIZE = 2000000, MAX_BLOCK_SIGOPS = 20000,
      GetSerializeSize = demo_GetSerializeSize,
      GetLegacySigOpCount = demo_GetLegacySigOpCount,
      push_int64 = demo_push_int, push_CScriptNum = demo_push_int,
      push_bytes = demo_push_bytes, OP_0 = 0,
      GetRandHash = 12345678901234567890, GetAdjustedTime = 1500000000,
      fPowAllowMinDifficultyBlocks = False,
      GetNextWorkRequired = (\<lambda>prev hdr. 520617983),
      ComputeBlockVersion = (\<lambda>prev. 4),
      TestBlockValidity = (\<lambda>blk prev fork. True),
      ForkStartHeight = 100, ZUtxoMiningStartBlock = 150, forkHeightRange = 200,
      forkCBPerBlock = cap, hashPid = replicate 32 1, forkExtraHashSentinel = 99,
      uninitialised64 = replicate 64 0,
      decoderawtransaction2 = demo_decode,
      utxo_files = (\<lambda>h. Some file)\<rparr>"

text \<open>A sample chain tip at height 199, with a given median time past.\<close>

definition demo_tip :: "64 word \<Rightarrow> CBlockIndex" where
  "demo_tip mtp = \<lparr>index_nHeight = 199, GetBlockHash = 77, GetMedianTimePast = mtp\<rparr>"

text \<open>What a run of the inner builder shows: the transactions, the fee entries, the log.\<close>

definition vtx_of :: "error + fork_state \<Rightarrow> CTransaction list" where
  "vtx_of r = (case r of Inl e \<Rightarrow> [] | Inr st \<Rightarrow> template_vtx st)"

definition vTxFees_of :: "error + fork_state \<Rightarrow> CAmount list" where
  "vTxFees_of r = (case r of Inl e \<Rightarrow> [] | Inr st \<Rightarrow> vTxFees (pblocktemplate st))"

definition logged_of :: "error + fork_state \<Rightarrow> log_event list" where
  "logged_of r = (case r of Inl e \<Rightarrow> [] | Inr st \<Rightarrow> logged st)"

lemmas fork_eval =
  CreateNewForkBlock_at_def demo_fork_env_def fork_initial_state_def
  utxo_loop.simps zutxo_loop.simps utxo_record_def zutxo_record_def
  read_utxo_fields_def read_zutxo_fields_def read_separator_def
  stream_read_def ifstream_open_def check_caps_and_push_def push_tx_def LogPrintf_def
  transparent_txNew_def shielded_txM_def resize1_def demo_decode_def strtol2_def isspace_def
  demo_GetSerializeSize_def demo_GetLegacySigOpCount_def fork_nBlockMaxSize_def
  dummy_txCoinbase_def CTransaction_default_def CTxIn_default_def CTxOut_default_def
  fork_scriptSig_def demo_push_int_def demo_push_bytes_def logical_not_def Let_def
  CBlock_default_def template_vtx_def vtx_of_def vTxFees_of_def logged_of_def
  randomise_nonce_def SetNull_def

subsection \<open>A round of the transparent loop, run forwards\<close>

text \<open>
  What a round does on a good stream, by how much of the record is there. The stream
  after a failed read has nothing left and both state bits set.
\<close>

definition at_eof :: "fork_state \<Rightarrow> fork_state" where
  "at_eof st = st\<lparr>if_utxo := (if_utxo st)\<lparr>unread := [], eofbit := True, failbit := True\<rparr>\<rparr>"

definition advanced :: "nat \<Rightarrow> fork_state \<Rightarrow> fork_state" where
  "advanced k st = st\<lparr>if_utxo := (if_utxo st)\<lparr>unread := drop k (unread (if_utxo st))\<rparr>\<rparr>"

lemma at_eof_simps [simp]:
  "pblocktemplate (at_eof st) = pblocktemplate st"
  "template_vtx (at_eof st) = template_vtx st"
  "nBlockTx (at_eof st) = nBlockTx st"
  "logged (at_eof st) = logged st"
  "failbit (if_utxo (at_eof st))"
  by (simp_all add: at_eof_def template_vtx_def)

lemma advanced_simps [simp]:
  "pblocktemplate (advanced k st) = pblocktemplate st"
  "template_vtx (advanced k st) = template_vtx st"
  "nBlockTx (advanced k st) = nBlockTx st"
  "nBlockSize (advanced k st) = nBlockSize st"
  "nBlockSigOps (advanced k st) = nBlockSigOps st"
  "logged (advanced k st) = logged st"
  "unread (if_utxo (advanced k st)) = drop k (unread (if_utxo st))"
  "eofbit (if_utxo (advanced k st)) = eofbit (if_utxo st)"
  "failbit (if_utxo (advanced k st)) = failbit (if_utxo st)"
  by (simp_all add: advanced_def template_vtx_def)

lemma read_utxo_fields_short_amount:
  assumes "\<not> eofbit (if_utxo st)" "\<not> failbit (if_utxo st)"
    and "length (unread (if_utxo st)) < 8"
  shows "read_utxo_fields E nHeight st
           = Break (if nHeight - ForkStartHeight E \<noteq> forkHeightRange E
                    then LogPrintf NoMoreData_Amount (at_eof st) else at_eof st)"
  using assms by (simp add: read_utxo_fields_def stream_read_def at_eof_def)

lemma read_utxo_fields_short_size:
  assumes "\<not> eofbit (if_utxo st)" "\<not> failbit (if_utxo st)"
    and "8 \<le> length (unread (if_utxo st))" "length (unread (if_utxo st)) < 16"
  shows "read_utxo_fields E nHeight st = Break (LogPrintf NoMoreData_PubKeyScriptSize (at_eof st))"
  using assms by (simp add: read_utxo_fields_def stream_read_def at_eof_def)

lemma read_utxo_fields_negative:
  assumes "\<not> eofbit (if_utxo st)" "\<not> failbit (if_utxo st)"
    and "16 \<le> length (unread (if_utxo st))" "record_pbsize st < 0"
  shows "read_utxo_fields E nHeight st = Throw BadArrayNewLength"
  using assms
  by (simp add: read_utxo_fields_def stream_read_def Let_def record_pbsize_def
        record_script_len_def)

lemma read_utxo_fields_short_script:
  assumes "\<not> eofbit (if_utxo st)" "\<not> failbit (if_utxo st)"
    and "16 \<le> length (unread (if_utxo st))" "0 \<le> record_pbsize st"
    and "length (unread (if_utxo st)) < 16 + nat (record_pbsize st)"
  shows "read_utxo_fields E nHeight st = Break (LogPrintf NoMoreData_PubKeyScript (at_eof st))"
proof -
  from assms(3,5) have "record_pbsize st \<noteq> 0" by auto
  with assms show ?thesis
    by (auto simp: read_utxo_fields_def stream_read_def Let_def record_pbsize_def
          record_script_len_def at_eof_def LogPrintf_def)
qed

lemma read_utxo_fields_complete:
  assumes "\<not> eofbit (if_utxo st)" "\<not> failbit (if_utxo st)"
    and "0 \<le> record_pbsize st"
    and "16 + nat (record_pbsize st) \<le> length (unread (if_utxo st))"
  shows "read_utxo_fields E nHeight st
           = Continue (take 8 (unread (if_utxo st)), record_script st,
                advanced (16 + nat (record_pbsize st))
                  (if record_pbsize st = 0 then LogPrintf PubKeyScriptSize_Zero st else st))"
  using assms
  by (auto simp: read_utxo_fields_def stream_read_def Let_def record_pbsize_def
        record_script_len_def record_script_def advanced_def LogPrintf_def add.commute)

lemma read_separator_run:
  assumes "\<not> eofbit (if_utxo st)" "\<not> failbit (if_utxo st)"
  shows "read_separator st
           = (if take 1 (unread (if_utxo st)) = [10] then Continue (advanced 1 st)
              else Break (LogPrintf InvalidRecordSeparator
                            (if unread (if_utxo st) = [] then at_eof st else advanced 1 st)))"
  using assms
  by (cases "unread (if_utxo st)")
     (simp_all add: read_separator_def stream_read_def advanced_def at_eof_def)

text \<open>
  A complete record (separator apart) that fits under the caps is appended; the round
  then ends on the separator.
\<close>

definition after_record :: "'e fork_env_scheme \<Rightarrow> int \<Rightarrow> fork_state \<Rightarrow> fork_state" where
  "after_record E nHeight st =
     (let tx = record_txNew E nHeight st;
          st1 = advanced (16 + nat (record_pbsize st))
                  (if record_pbsize st = 0 then LogPrintf PubKeyScriptSize_Zero st else st);
          st2 = push_tx tx (GetSerializeSize E tx) (GetLegacySigOpCount E tx) st1
      in st2\<lparr>nBlockTotalAmount := nBlockTotalAmount st2 + record_amount st\<rparr>)"

lemma after_record_simps [simp]:
  "template_vtx (after_record E nHeight st) = template_vtx st @ [record_txNew E nHeight st]"
  "vTxFees (pblocktemplate (after_record E nHeight st)) = vTxFees (pblocktemplate st) @ [0]"
  "nBlockTx (after_record E nHeight st) = Suc (nBlockTx st)"
  "logged (after_record E nHeight st)
     = logged st @ (if record_pbsize st = 0 then [PubKeyScriptSize_Zero] else [])"
  "unread (if_utxo (after_record E nHeight st))
     = drop (16 + nat (record_pbsize st)) (unread (if_utxo st))"
  "eofbit (if_utxo (after_record E nHeight st)) = eofbit (if_utxo st)"
  "failbit (if_utxo (after_record E nHeight st)) = failbit (if_utxo st)"
  by (simp_all add: after_record_def Let_def template_vtx_def push_tx_def advanced_def
        LogPrintf_def)

lemma utxo_record_complete:
  assumes good: "\<not> eofbit (if_utxo st)" "\<not> failbit (if_utxo st)"
    and nonneg: "0 \<le> record_pbsize st"
    and len: "16 + nat (record_pbsize st) \<le> length (unread (if_utxo st))"
    and size: "nBlockSize st + GetSerializeSize E (record_txNew E nHeight st) < fork_nBlockMaxSize E"
    and sigops: "nBlockSigOps st + GetLegacySigOpCount E (record_txNew E nHeight st)
                   < MAX_BLOCK_SIGOPS E"
  shows "utxo_record E nHeight st = read_separator (after_record E nHeight st)"
proof -
  let ?st1 = "advanced (16 + nat (record_pbsize st))
                (if record_pbsize st = 0 then LogPrintf PubKeyScriptSize_Zero st else st)"
  let ?tx = "record_txNew E nHeight st"
  have f: "read_utxo_fields E nHeight st
             = Continue (take 8 (unread (if_utxo st)), record_script st, ?st1)"
    using good nonneg len by (rule read_utxo_fields_complete)
  have tx: "transparent_txNew E nHeight (nBlockTx ?st1)
              (bytes2uint64 (take 8 (unread (if_utxo st)))) (record_script st) = ?tx"
    by (simp add: record_txNew_def record_amount_def)
  have "check_caps_and_push E ?tx ?st1
          = Inr (push_tx ?tx (GetSerializeSize E ?tx) (GetLegacySigOpCount E ?tx) ?st1)"
    using size sigops by (intro check_caps_and_push_fits) simp_all
  with f tx show ?thesis
    by (simp add: utxo_record_def Let_def after_record_def record_amount_def)
qed



subsection \<open>The transparent loop, run forwards\<close>













text \<open>The exceptions that leave the loops and the inner builder.\<close>

lemma read_utxo_fields_Throw:
  "read_utxo_fields E nHeight st = Throw e \<Longrightarrow> e = BadArrayNewLength"
  unfolding read_utxo_fields_def Let_def
  by (simp split: prod.splits option.splits if_splits)

lemma utxo_record_Throw:
  assumes "utxo_record E nHeight st = Throw e"
  shows "e = BadArrayNewLength"
proof (cases rule: utxo_record_cases [of E nHeight st])
  case (fields_Break st1)
  with assms show ?thesis by simp
next
  case (fields_Throw e')
  with assms read_utxo_fields_Throw [of E nHeight st e'] show ?thesis by simp
next
  case (caps coin pks st1 st2)
  with assms show ?thesis by simp
next
  case (pushed coin pks st1 st2)
  with assms read_separator_not_Throw show ?thesis by simp
qed

lemma utxo_loop_Inl:
  "utxo_loop E nHeight st = Inl e \<Longrightarrow> e = BadArrayNewLength"
proof (induction E nHeight st rule: utxo_loop.induct)
  case (1 E nHeight st)
  show ?case
  proof (cases "\<not> failbit (if_utxo st) \<and> nBlockTx st < forkCBPerBlock E")
    case False
    with "1.prems" show ?thesis by (simp add: utxo_loop.simps [of E nHeight st])
  next
    case True
    show ?thesis
    proof (cases "utxo_record E nHeight st")
      case (Continue s)
      with True "1.prems" have "utxo_loop E nHeight s = Inl e"
        by (simp add: utxo_loop.simps [of E nHeight st])
      from "1.IH" [OF True Continue this] show ?thesis .
    next
      case (Break s)
      with True "1.prems" show ?thesis by (simp add: utxo_loop.simps [of E nHeight st])
    next
      case (Throw e')
      with True "1.prems" have "e' = e" by (simp add: utxo_loop.simps [of E nHeight st])
      with Throw utxo_record_Throw [of E nHeight st e'] show ?thesis by simp
    qed
  qed
qed

lemma read_zutxo_fields_Throw:
  "read_zutxo_fields st = Throw e \<Longrightarrow> e = BadArrayNewLength"
  unfolding read_zutxo_fields_def Let_def
  by (simp split: prod.splits option.splits if_splits)

lemma zutxo_record_Throw:
  assumes "zutxo_record E nHeight st = Throw e"
  shows "e = BadArrayNewLength \<or> e = DecodeFailed"
proof (cases "read_zutxo_fields st")
  case (Continue x)
  with assms show ?thesis
    by (auto simp: zutxo_record_def split: prod.splits option.splits sum.splits)
next
  case (Break s)
  with assms show ?thesis by (simp add: zutxo_record_def)
next
  case (Throw e')
  with assms read_zutxo_fields_Throw [of st e'] show ?thesis by (simp add: zutxo_record_def)
qed

lemma zutxo_loop_Inl:
  "zutxo_loop E nHeight st = Inl e \<Longrightarrow> e = BadArrayNewLength \<or> e = DecodeFailed"
proof (induction E nHeight st rule: zutxo_loop.induct)
  case (1 E nHeight st)
  show ?case
  proof (cases "zutxo_record E nHeight st")
    case (Continue s)
    with "1.prems" have "zutxo_loop E nHeight s = Inl e"
      by (simp add: zutxo_loop.simps [of E nHeight st])
    from "1.IH" [OF Continue this] show ?thesis .
  next
    case (Break s)
    with "1.prems" show ?thesis by (simp add: zutxo_loop.simps [of E nHeight st])
  next
    case (Throw e')
    with "1.prems" have "e' = e" by (simp add: zutxo_loop.simps [of E nHeight st])
    with Throw zutxo_record_Throw [of E nHeight st e'] show ?thesis by simp
  qed
qed

lemma CreateNewForkBlock_at_Inl:
  assumes "CreateNewForkBlock_at E nHeight = Inl e"
  shows "e = FileNotFound \<or> e = BadArrayNewLength \<or> e = DecodeFailed"
proof (cases "utxo_files E nHeight")
  case None
  with assms show ?thesis by (simp add: CreateNewForkBlock_at_def)
next
  case (Some bytes)
  show ?thesis
  proof (cases "nHeight = ZUtxoMiningStartBlock E")
    case True
    with Some assms have "zutxo_loop E nHeight (fork_initial_state E nHeight bytes) = Inl e"
      by (simp add: CreateNewForkBlock_at_def split: sum.splits)
    from zutxo_loop_Inl [OF this] show ?thesis by simp
  next
    case False
    with Some assms have "utxo_loop E nHeight (fork_initial_state E nHeight bytes) = Inl e"
      by (simp add: CreateNewForkBlock_at_def split: sum.splits)
    from utxo_loop_Inl [OF this] show ?thesis by simp
  qed
qed



section \<open>The claims about fork mode, record by record\<close>

subsection \<open>C4: the doubling rule\<close>


definition demo_utxo_100 :: "byte list" where
  "demo_utxo_100 = [100, 0, 0, 0, 0, 0, 0, 0,  2, 0, 0, 0, 0, 0, 0, 0,  81, 82,  10]"




subsection \<open>C10: a record whose script length is 0\<close>








subsection \<open>C6: a truncated transparent file\<close>

definition demo_utxo_nosep :: "byte list" where
  "demo_utxo_nosep = [5, 0, 0, 0, 0, 0, 0, 0,  2, 0, 0, 0, 0, 0, 0, 0,  81, 82]"

definition demo_utxo_badsep :: "byte list" where
  "demo_utxo_badsep =
     [5, 0, 0, 0, 0, 0, 0, 0,  2, 0, 0, 0, 0, 0, 0, 0,  81, 82,  11,
      6, 0, 0, 0, 0, 0, 0, 0,  1, 0, 0, 0, 0, 0, 0, 0,  83,  10]"

text \<open>
  C6, as the spec states it, fails in both directions. (1) The file \<open>[1, 2, 3]\<close> ends
  inside the amount field and no record has been read (the cap is 5), yet at height 300,
  the last of the sample fork window (\<open>nForkHeight = forkHeightRange\<close>), the builder
  logs no error. (2) The file \<open>demo_utxo_nosep\<close> ends after the script of its only
  record; with a cap of 1 the count has reached the cap and the read position is at the
  end of the file, yet the builder logs an invalid record separator.
\<close>

theorem truncation_counterexample:
  "length (tl (vtx_of (CreateNewForkBlock_at (demo_fork_env 5 [1, 2, 3]) 300))) < 5
   \<and> logged_of (CreateNewForkBlock_at (demo_fork_env 5 [1, 2, 3]) 300) = []
   \<and> length (tl (vtx_of (CreateNewForkBlock_at (demo_fork_env 1 demo_utxo_nosep) 200))) = 1
   \<and> logged_of (CreateNewForkBlock_at (demo_fork_env 1 demo_utxo_nosep) 200)
       = [InvalidRecordSeparator]"
  by (simp add: fork_eval demo_utxo_nosep_def)

lemma separator_byte:
  "k < length bs \<Longrightarrow> take (Suc 0) (drop k bs) = [bs ! k]"
  by (simp add: take_Suc_conv_app_nth [of 0] Cons_nth_drop_Suc [symmetric])

text \<open>
  C6, amended: the transparent loop on a good stream. Once the count has reached the cap
  the loop ends without a read and without an error, whatever is left in the file. Below
  the cap, a file that ends inside the amount field (or exactly at a record boundary) is
  reported (\<open>NoMoreData_Amount\<close>) unless the height is the last of the fork window
  (\<open>nForkHeight = forkHeightRange\<close>), in which case the loop ends cleanly; a file that
  ends inside the length field or inside the script is always reported. A record that is
  complete up to its script and fits under the caps is appended to the template; if the
  file ends right after the script, or if the byte after the script is not the
  separator \<open>10\<close>, the loop then ends and reports an invalid record separator, with
  the record's coinbase in the template; if that byte is the separator, the loop goes on
  with the next record and reports nothing for this one.
\<close>

theorem transparent_truncation:
  assumes "\<not> eofbit (if_utxo st)" and "\<not> failbit (if_utxo st)"
  shows
    "(forkCBPerBlock E \<le> nBlockTx st \<longrightarrow> utxo_loop E nHeight st = Inr st)
     \<and> (nBlockTx st < forkCBPerBlock E \<and> length (unread (if_utxo st)) < 8 \<longrightarrow>
          utxo_loop E nHeight st
            = Inr (if nHeight - ForkStartHeight E \<noteq> forkHeightRange E
                   then LogPrintf NoMoreData_Amount (at_eof st) else at_eof st))
     \<and> (nBlockTx st < forkCBPerBlock E \<and> 8 \<le> length (unread (if_utxo st))
          \<and> length (unread (if_utxo st)) < 16 \<longrightarrow>
          utxo_loop E nHeight st = Inr (LogPrintf NoMoreData_PubKeyScriptSize (at_eof st)))
     \<and> (nBlockTx st < forkCBPerBlock E \<and> 16 \<le> length (unread (if_utxo st))
          \<and> 0 \<le> record_pbsize st
          \<and> length (unread (if_utxo st)) < 16 + nat (record_pbsize st) \<longrightarrow>
          utxo_loop E nHeight st = Inr (LogPrintf NoMoreData_PubKeyScript (at_eof st)))
     \<and> (nBlockTx st < forkCBPerBlock E \<and> 0 \<le> record_pbsize st
          \<and> length (unread (if_utxo st)) = 16 + nat (record_pbsize st)
          \<and> nBlockSize st + GetSerializeSize E (record_txNew E nHeight st) < fork_nBlockMaxSize E
          \<and> nBlockSigOps st + GetLegacySigOpCount E (record_txNew E nHeight st)
                < MAX_BLOCK_SIGOPS E \<longrightarrow>
          utxo_loop E nHeight st
            = Inr (LogPrintf InvalidRecordSeparator (at_eof (after_record E nHeight st)))
          \<and> vtx_of (utxo_loop E nHeight st) = template_vtx st @ [record_txNew E nHeight st]
          \<and> logged_of (utxo_loop E nHeight st)
              = logged (after_record E nHeight st) @ [InvalidRecordSeparator])
     \<and> (nBlockTx st < forkCBPerBlock E \<and> 0 \<le> record_pbsize st
          \<and> 16 + nat (record_pbsize st) < length (unread (if_utxo st))
          \<and> unread (if_utxo st) ! (16 + nat (record_pbsize st)) \<noteq> 10
          \<and> nBlockSize st + GetSerializeSize E (record_txNew E nHeight st) < fork_nBlockMaxSize E
          \<and> nBlockSigOps st + GetLegacySigOpCount E (record_txNew E nHeight st)
                < MAX_BLOCK_SIGOPS E \<longrightarrow>
          utxo_loop E nHeight st
            = Inr (LogPrintf InvalidRecordSeparator (advanced 1 (after_record E nHeight st)))
          \<and> vtx_of (utxo_loop E nHeight st) = template_vtx st @ [record_txNew E nHeight st]
          \<and> logged_of (utxo_loop E nHeight st)
              = logged (after_record E nHeight st) @ [InvalidRecordSeparator])
     \<and> (nBlockTx st < forkCBPerBlock E \<and> 0 \<le> record_pbsize st
          \<and> 16 + nat (record_pbsize st) < length (unread (if_utxo st))
          \<and> unread (if_utxo st) ! (16 + nat (record_pbsize st)) = 10
          \<and> nBlockSize st + GetSerializeSize E (record_txNew E nHeight st) < fork_nBlockMaxSize E
          \<and> nBlockSigOps st + GetLegacySigOpCount E (record_txNew E nHeight st)
                < MAX_BLOCK_SIGOPS E \<longrightarrow>
          utxo_loop E nHeight st = utxo_loop E nHeight (advanced 1 (after_record E nHeight st))
          \<and> template_vtx (advanced 1 (after_record E nHeight st))
              = template_vtx st @ [record_txNew E nHeight st]
          \<and> logged (advanced 1 (after_record E nHeight st))
              = logged st @ (if record_pbsize st = 0 then [PubKeyScriptSize_Zero] else []))"
proof (intro conjI impI)
  assume "forkCBPerBlock E \<le> nBlockTx st"
  then show "utxo_loop E nHeight st = Inr st"
    by (simp add: utxo_loop.simps [of E nHeight st])
next
  assume a: "nBlockTx st < forkCBPerBlock E \<and> length (unread (if_utxo st)) < 8"
  with assms have "utxo_record E nHeight st
      = Break (if nHeight - ForkStartHeight E \<noteq> forkHeightRange E
               then LogPrintf NoMoreData_Amount (at_eof st) else at_eof st)"
    by (simp add: utxo_record_def read_utxo_fields_short_amount)
  with a assms show "utxo_loop E nHeight st
      = Inr (if nHeight - ForkStartHeight E \<noteq> forkHeightRange E
             then LogPrintf NoMoreData_Amount (at_eof st) else at_eof st)"
    by (simp add: utxo_loop.simps [of E nHeight st])
next
  assume a: "nBlockTx st < forkCBPerBlock E \<and> 8 \<le> length (unread (if_utxo st))
    \<and> length (unread (if_utxo st)) < 16"
  with assms have "utxo_record E nHeight st
      = Break (LogPrintf NoMoreData_PubKeyScriptSize (at_eof st))"
    by (simp add: utxo_record_def read_utxo_fields_short_size)
  with a assms show "utxo_loop E nHeight st
      = Inr (LogPrintf NoMoreData_PubKeyScriptSize (at_eof st))"
    by (simp add: utxo_loop.simps [of E nHeight st])
next
  assume a: "nBlockTx st < forkCBPerBlock E \<and> 16 \<le> length (unread (if_utxo st))
    \<and> 0 \<le> record_pbsize st \<and> length (unread (if_utxo st)) < 16 + nat (record_pbsize st)"
  with assms have "utxo_record E nHeight st
      = Break (LogPrintf NoMoreData_PubKeyScript (at_eof st))"
    by (simp add: utxo_record_def read_utxo_fields_short_script)
  with a assms show "utxo_loop E nHeight st
      = Inr (LogPrintf NoMoreData_PubKeyScript (at_eof st))"
    by (simp add: utxo_loop.simps [of E nHeight st])
next
  assume a: "nBlockTx st < forkCBPerBlock E \<and> 0 \<le> record_pbsize st
    \<and> length (unread (if_utxo st)) = 16 + nat (record_pbsize st)
    \<and> nBlockSize st + GetSerializeSize E (record_txNew E nHeight st) < fork_nBlockMaxSize E
    \<and> nBlockSigOps st + GetLegacySigOpCount E (record_txNew E nHeight st) < MAX_BLOCK_SIGOPS E"
  let ?st2 = "after_record E nHeight st"
  from a assms have "utxo_record E nHeight st = read_separator ?st2"
    by (intro utxo_record_complete) simp_all
  moreover from a have "unread (if_utxo ?st2) = []" by simp
  moreover from assms have "\<not> eofbit (if_utxo ?st2)" "\<not> failbit (if_utxo ?st2)" by simp_all
  ultimately have "utxo_record E nHeight st
      = Break (LogPrintf InvalidRecordSeparator (at_eof ?st2))"
    by (simp add: read_separator_run)
  with a assms have r: "utxo_loop E nHeight st
      = Inr (LogPrintf InvalidRecordSeparator (at_eof ?st2))"
    by (simp add: utxo_loop.simps [of E nHeight st])
  show "utxo_loop E nHeight st = Inr (LogPrintf InvalidRecordSeparator (at_eof ?st2))"
    by (rule r)
  show "vtx_of (utxo_loop E nHeight st) = template_vtx st @ [record_txNew E nHeight st]"
    by (simp only: r) (simp add: vtx_of_def)
  show "logged_of (utxo_loop E nHeight st) = logged ?st2 @ [InvalidRecordSeparator]"
    by (simp only: r) (simp add: logged_of_def)
next
  assume a: "nBlockTx st < forkCBPerBlock E \<and> 0 \<le> record_pbsize st
    \<and> 16 + nat (record_pbsize st) < length (unread (if_utxo st))
    \<and> unread (if_utxo st) ! (16 + nat (record_pbsize st)) \<noteq> 10
    \<and> nBlockSize st + GetSerializeSize E (record_txNew E nHeight st) < fork_nBlockMaxSize E
    \<and> nBlockSigOps st + GetLegacySigOpCount E (record_txNew E nHeight st) < MAX_BLOCK_SIGOPS E"
  let ?st2 = "after_record E nHeight st"
  from a assms have "utxo_record E nHeight st = read_separator ?st2"
    by (intro utxo_record_complete) simp_all
  moreover from a have "take 1 (unread (if_utxo ?st2)) \<noteq> [10]" "unread (if_utxo ?st2) \<noteq> []"
    by (simp_all add: separator_byte)
  moreover from assms have "\<not> eofbit (if_utxo ?st2)" "\<not> failbit (if_utxo ?st2)" by simp_all
  ultimately have "utxo_record E nHeight st
      = Break (LogPrintf InvalidRecordSeparator (advanced 1 ?st2))"
    by (simp add: read_separator_run)
  with a assms have r: "utxo_loop E nHeight st
      = Inr (LogPrintf InvalidRecordSeparator (advanced 1 ?st2))"
    by (simp add: utxo_loop.simps [of E nHeight st])
  show "utxo_loop E nHeight st = Inr (LogPrintf InvalidRecordSeparator (advanced 1 ?st2))"
    by (rule r)
  show "vtx_of (utxo_loop E nHeight st) = template_vtx st @ [record_txNew E nHeight st]"
    by (simp only: r) (simp add: vtx_of_def)
  show "logged_of (utxo_loop E nHeight st) = logged ?st2 @ [InvalidRecordSeparator]"
    by (simp only: r) (simp add: logged_of_def)
next
  assume a: "nBlockTx st < forkCBPerBlock E \<and> 0 \<le> record_pbsize st
    \<and> 16 + nat (record_pbsize st) < length (unread (if_utxo st))
    \<and> unread (if_utxo st) ! (16 + nat (record_pbsize st)) = 10
    \<and> nBlockSize st + GetSerializeSize E (record_txNew E nHeight st) < fork_nBlockMaxSize E
    \<and> nBlockSigOps st + GetLegacySigOpCount E (record_txNew E nHeight st) < MAX_BLOCK_SIGOPS E"
  let ?st2 = "after_record E nHeight st"
  from a assms have "utxo_record E nHeight st = read_separator ?st2"
    by (intro utxo_record_complete) simp_all
  moreover from a have "take 1 (unread (if_utxo ?st2)) = [10]"
    by (simp add: separator_byte)
  moreover from assms have "\<not> eofbit (if_utxo ?st2)" "\<not> failbit (if_utxo ?st2)" by simp_all
  ultimately have "utxo_record E nHeight st = Continue (advanced 1 ?st2)"
    by (simp add: read_separator_run)
  with a assms show "utxo_loop E nHeight st = utxo_loop E nHeight (advanced 1 ?st2)"
    by (simp add: utxo_loop.simps [of E nHeight st])
  show "template_vtx (advanced 1 ?st2) = template_vtx st @ [record_txNew E nHeight st]"
    by simp
  show "logged (advanced 1 ?st2)
      = logged st @ (if record_pbsize st = 0 then [PubKeyScriptSize_Zero] else [])"
    by simp
qed

text \<open>
  The theorem at the start of the file \<open>[1, 2, 3]\<close>, below the cap 5: reported at
  height 200, a clean end at height 300. And at the start of \<open>demo_utxo_badsep\<close>,
  whose only record is followed by the byte 11 and more: the record's coinbase is in the
  template and the separator is reported.
\<close>

theorem transparent_truncation_witness:
  "logged_of (utxo_loop (demo_fork_env 5 [1, 2, 3]) 200
                (fork_initial_state (demo_fork_env 5 [1, 2, 3]) 200 [1, 2, 3]))
     = [NoMoreData_Amount]
   \<and> logged_of (utxo_loop (demo_fork_env 5 [1, 2, 3]) 300
                (fork_initial_state (demo_fork_env 5 [1, 2, 3]) 300 [1, 2, 3])) = []
   \<and> logged_of (utxo_loop (demo_fork_env 5 demo_utxo_badsep) 200
                (fork_initial_state (demo_fork_env 5 demo_utxo_badsep) 200 demo_utxo_badsep))
       = [InvalidRecordSeparator]
   \<and> length (vtx_of (utxo_loop (demo_fork_env 5 demo_utxo_badsep) 200
                (fork_initial_state (demo_fork_env 5 demo_utxo_badsep) 200 demo_utxo_badsep)))
       = 2"
proof -
  let ?E = "demo_fork_env 5 [1, 2, 3]"
  have h: "nBlockTx (fork_initial_state ?E h [1, 2, 3]) < forkCBPerBlock ?E
      \<and> length (unread (if_utxo (fork_initial_state ?E h [1, 2, 3]))) < 8" for h
    by (simp add: demo_fork_env_def)
  have f: "ForkStartHeight ?E = 100" "forkHeightRange ?E = 200"
    by (simp_all add: demo_fork_env_def)
  from transparent_truncation [of "fork_initial_state ?E 200 [1, 2, 3]" ?E 200] h [of 200] f
  have 1: "utxo_loop ?E 200 (fork_initial_state ?E 200 [1, 2, 3])
          = Inr (LogPrintf NoMoreData_Amount (at_eof (fork_initial_state ?E 200 [1, 2, 3])))"
    by simp
  from transparent_truncation [of "fork_initial_state ?E 300 [1, 2, 3]" ?E 300] h [of 300] f
  have 2: "utxo_loop ?E 300 (fork_initial_state ?E 300 [1, 2, 3])
          = Inr (at_eof (fork_initial_state ?E 300 [1, 2, 3]))"
    by simp
  let ?B = "demo_fork_env 5 demo_utxo_badsep"
  let ?st = "fork_initial_state ?B 200 demo_utxo_badsep"
  have pb: "record_pbsize ?st = 2"
    by (simp add: record_pbsize_def record_script_len_def demo_utxo_badsep_def)
  have sc: "record_script ?st = [81, 82]" "record_amount ?st = 5"
    by (simp_all add: record_script_def record_amount_def pb) (simp_all add: demo_utxo_badsep_def)
  have tx: "record_txNew ?B 200 ?st = transparent_txNew ?B 200 0 5 [81, 82]"
    by (simp add: record_txNew_def sc)
  have b: "nBlockTx ?st < forkCBPerBlock ?B \<and> 0 \<le> record_pbsize ?st
    \<and> 16 + nat (record_pbsize ?st) < length (unread (if_utxo ?st))
    \<and> unread (if_utxo ?st) ! (16 + nat (record_pbsize ?st)) \<noteq> 10
    \<and> nBlockSize ?st + GetSerializeSize ?B (record_txNew ?B 200 ?st) < fork_nBlockMaxSize ?B
    \<and> nBlockSigOps ?st + GetLegacySigOpCount ?B (record_txNew ?B 200 ?st) < MAX_BLOCK_SIGOPS ?B"
    unfolding tx pb by (simp add: fork_eval) (simp add: demo_utxo_badsep_def)
  have good: "\<not> eofbit (if_utxo ?st)" "\<not> failbit (if_utxo ?st)" by simp_all
  from transparent_truncation [OF good, of ?B 200] b
  have 3: "vtx_of (utxo_loop ?B 200 ?st) = template_vtx ?st @ [record_txNew ?B 200 ?st]"
    and 4: "logged_of (utxo_loop ?B 200 ?st)
              = logged (after_record ?B 200 ?st) @ [InvalidRecordSeparator]"
    by blast+
  from 4 pb have "logged_of (utxo_loop ?B 200 ?st) = [InvalidRecordSeparator]" by simp
  moreover from 3 have "length (vtx_of (utxo_loop ?B 200 ?st)) = 2" by simp
  ultimately show ?thesis using 1 2 by (simp add: logged_of_def)
qed

subsection \<open>C2: how many coinbases a fork template holds\<close>

definition demo_zutxo_two :: "byte list" where
  "demo_zutxo_two =
     [48, 48, 48, 48, 48, 48, 48, 48, 48, 48, 48, 48, 48, 48, 48, 48,
      48, 48, 48, 48, 48, 48, 48, 48, 48, 48, 48, 48, 48, 48, 49, 49,
      1, 5, 6,
      48, 48, 48, 48, 48, 48, 48, 48, 48, 48, 48, 48, 48, 48, 48, 48,
      48, 48, 48, 48, 48, 48, 48, 48, 48, 48, 48, 48, 48, 48, 49, 48,
      0, 9]"

text \<open>
  C2, as the spec states it, fails for the shielded format. The file \<open>demo_zutxo_two\<close>
  holds two shielded records (size fields \<open>11\<close> and \<open>10\<close> in binary); at height 150,
  the shielded height of the sample environment, with \<open>forkCBPerBlock = 1\<close>, both are
  appended.
\<close>

theorem shielded_cap_counterexample:
  "forkCBPerBlock (demo_fork_env 1 demo_zutxo_two) = 1
   \<and> ZUtxoMiningStartBlock (demo_fork_env 1 demo_zutxo_two) = 150
   \<and> length (tl (vtx_of (CreateNewForkBlock_at (demo_fork_env 1 demo_zutxo_two) 150))) = 2"
  by (simp add: fork_eval demo_zutxo_two_def)

text \<open>
  C2, amended: a fork template holds the dummy coinbase and \<open>nBlockTx\<close> synthetic
  coinbases. In the transparent format their number is at most \<open>forkCBPerBlock\<close>. In
  the shielded format \<open>forkCBPerBlock\<close> is not consulted: their number is bounded by
  the file alone (every record takes at least 33 bytes), and by the size and sig-op caps.
\<close>

theorem fork_coinbase_count:
  assumes "CreateNewForkBlock_at E nHeight = Inr st"
  shows "length (template_vtx st) = Suc (nBlockTx st)
     \<and> (nHeight \<noteq> ZUtxoMiningStartBlock E \<longrightarrow> nBlockTx st \<le> forkCBPerBlock E)
     \<and> (nHeight = ZUtxoMiningStartBlock E \<longrightarrow>
          (\<exists>bytes. utxo_files E nHeight = Some bytes \<and> 33 * nBlockTx st \<le> length bytes))"
proof (cases "nHeight = ZUtxoMiningStartBlock E")
  case True
  from assms True obtain txs bytes where
    "utxo_files E nHeight = Some bytes"
    "template_vtx st = dummy_txCoinbase E nHeight # txs"
    "nBlockTx st = length txs"
    "33 * length txs \<le> length bytes"
    by (rule fork_template_shielded) blast
  with True show ?thesis by simp
next
  case False
  from assms False obtain txs where
    "template_vtx st = dummy_txCoinbase E nHeight # txs"
    "nBlockTx st = length txs"
    "length txs \<le> forkCBPerBlock E"
    by (rule fork_template_transparent) blast
  with False show ?thesis by simp
qed

text \<open>The theorem at the file \<open>demo_utxo_100\<close> (one record, cap 3) at height 200.\<close>

theorem fork_coinbase_count_witness:
  "CreateNewForkBlock_at (demo_fork_env 3 demo_utxo_100) 200
     = Inr (projr (CreateNewForkBlock_at (demo_fork_env 3 demo_utxo_100) 200))
   \<and> nBlockTx (projr (CreateNewForkBlock_at (demo_fork_env 3 demo_utxo_100) 200)) = 1
   \<and> nBlockTx (projr (CreateNewForkBlock_at (demo_fork_env 3 demo_utxo_100) 200))
        \<le> forkCBPerBlock (demo_fork_env 3 demo_utxo_100)"
proof -
  let ?E = "demo_fork_env 3 demo_utxo_100"
  have r: "CreateNewForkBlock_at ?E 200 = Inr (projr (CreateNewForkBlock_at ?E 200))"
    by (simp add: fork_eval demo_utxo_100_def)
  have h: "200 \<noteq> ZUtxoMiningStartBlock ?E" by (simp add: demo_fork_env_def)
  have n: "nBlockTx (projr (CreateNewForkBlock_at ?E 200)) = 1"
    by (simp add: fork_eval demo_utxo_100_def)
  from fork_coinbase_count [OF r] h r n show ?thesis by simp
qed

subsection \<open>C5: the scripts of the synthetic coinbases\<close>

text \<open>
  C5, as the spec states it, fails for shielded records: the shielded loop assigns no
  \<open>scriptSig\<close>. In the template built from \<open>demo_zutxo_two\<close> the first synthetic
  coinbase keeps the script \<open>[5, 6]\<close> of the decoded transaction's input and the
  second, decoded without inputs, has the empty script; neither is a script assembled
  from the height and an index.
\<close>

theorem shielded_scriptSig_counterexample:
  "map (map scriptSig \<circ> vin)
     (tl (vtx_of (CreateNewForkBlock_at (demo_fork_env 1 demo_zutxo_two) 150))) = [[[5, 6]], [[]]]
   \<and> [5, 6] \<notin> range (fork_scriptSig (demo_fork_env 1 demo_zutxo_two) 150)
   \<and> [] \<notin> range (fork_scriptSig (demo_fork_env 1 demo_zutxo_two) 150)"
proof -
  have "map (map scriptSig \<circ> vin)
     (tl (vtx_of (CreateNewForkBlock_at (demo_fork_env 1 demo_zutxo_two) 150))) = [[[5, 6]], [[]]]"
    by (simp add: fork_eval demo_zutxo_two_def)
  moreover have "[5, 6] \<noteq> fork_scriptSig (demo_fork_env 1 demo_zutxo_two) 150 k"
    "[] \<noteq> fork_scriptSig (demo_fork_env 1 demo_zutxo_two) 150 k" for k
    by (simp_all add: fork_scriptSig_def demo_fork_env_def demo_push_int_def demo_push_bytes_def)
  ultimately show ?thesis by (simp add: image_iff)
qed

text \<open>
  C5, amended. In every fork template the dummy coinbase at index 0 has the script
  \<open>push(height) || push(0) || push(hashPid) || OP_0\<close>. In the transparent format the
  synthetic coinbase number \<open>i\<close> (at index \<open>i + 1\<close>) has the script
  \<open>push(height) || push(i) || OP_0\<close>, with \<open>push(hashPid)\<close> before \<open>OP_0\<close> for
  \<open>i = 0\<close> only. In the shielded format the decoded transaction is cut to one input
  with a null previous outpoint and one output of value 0; the \<open>scriptSig\<close> of its
  first input and the \<open>scriptPubKey\<close> of its first output are kept as decoded (empty
  when it had none), and the shielded descriptors are carried through unchanged.
\<close>

theorem fork_coinbase_scripts:
  assumes "CreateNewForkBlock_at E nHeight = Inr st"
  shows
    "map scriptSig (vin (template_vtx st ! 0))
       = [push_int64 E nHeight @ push_CScriptNum E 0 @ push_bytes E (hashPid E) @ [OP_0 E]]
     \<and> (nHeight \<noteq> ZUtxoMiningStartBlock E \<longrightarrow>
          (\<forall>i < nBlockTx st.
             map scriptSig (vin (template_vtx st ! Suc i))
               = [push_int64 E nHeight @ push_CScriptNum E (int i)
                    @ (if i = 0 then push_bytes E (hashPid E) else []) @ [OP_0 E]]))
     \<and> (nHeight = ZUtxoMiningStartBlock E \<longrightarrow>
          (\<forall>i < nBlockTx st. \<exists>raw txNew.
             decoderawtransaction2 E raw = Some txNew
             \<and> template_vtx st ! Suc i = shielded_txM txNew
             \<and> map prevout (vin (shielded_txM txNew)) = [SetNull]
             \<and> map nValue (vout (shielded_txM txNew)) = [0]
             \<and> map scriptSig (vin (shielded_txM txNew))
                 = [case vin txNew of [] \<Rightarrow> [] | txin # _ \<Rightarrow> scriptSig txin]
             \<and> map scriptPubKey (vout (shielded_txM txNew))
                 = [case vout txNew of [] \<Rightarrow> [] | txout # _ \<Rightarrow> scriptPubKey txout]
             \<and> vjoinsplit (shielded_txM txNew) = vjoinsplit txNew
             \<and> joinSplitPubKey (shielded_txM txNew) = joinSplitPubKey txNew
             \<and> joinSplitSig (shielded_txM txNew) = joinSplitSig txNew))"
proof (cases "nHeight = ZUtxoMiningStartBlock E")
  case True
  from assms True obtain txs bytes where
    "utxo_files E nHeight = Some bytes" and
    v: "template_vtx st = dummy_txCoinbase E nHeight # txs" and
    n: "nBlockTx st = length txs" and
    ix: "\<And>i. i < length txs \<Longrightarrow>
       \<exists>raw txNew. decoderawtransaction2 E raw = Some txNew \<and> txs ! i = shielded_txM txNew"
    by (rule fork_template_shielded) blast
  have "\<exists>raw txNew.
             decoderawtransaction2 E raw = Some txNew
             \<and> template_vtx st ! Suc i = shielded_txM txNew
             \<and> map prevout (vin (shielded_txM txNew)) = [SetNull]
             \<and> map nValue (vout (shielded_txM txNew)) = [0]
             \<and> map scriptSig (vin (shielded_txM txNew))
                 = [case vin txNew of [] \<Rightarrow> [] | txin # _ \<Rightarrow> scriptSig txin]
             \<and> map scriptPubKey (vout (shielded_txM txNew))
                 = [case vout txNew of [] \<Rightarrow> [] | txout # _ \<Rightarrow> scriptPubKey txout]
             \<and> vjoinsplit (shielded_txM txNew) = vjoinsplit txNew
             \<and> joinSplitPubKey (shielded_txM txNew) = joinSplitPubKey txNew
             \<and> joinSplitSig (shielded_txM txNew) = joinSplitSig txNew"
    if "i < nBlockTx st" for i
  proof -
    from that n have "i < length txs" by simp
    from ix [OF this] obtain raw txNew where
      "decoderawtransaction2 E raw = Some txNew" "txs ! i = shielded_txM txNew" by blast
    with v show ?thesis
      by (intro exI [of _ raw] exI [of _ txNew]) (simp add: shielded_txM_shape)
  qed
  with True v show ?thesis by (simp add: dummy_txCoinbase_def)
next
  case False
  from assms False obtain txs where
    v: "template_vtx st = dummy_txCoinbase E nHeight # txs" and
    n: "nBlockTx st = length txs" and
    ix: "\<And>i. i < length txs \<Longrightarrow> \<exists>amount pks. txs ! i = transparent_txNew E nHeight i amount pks"
    by (rule fork_template_transparent) blast
  have "map scriptSig (vin (template_vtx st ! Suc i))
               = [push_int64 E nHeight @ push_CScriptNum E (int i)
                    @ (if i = 0 then push_bytes E (hashPid E) else []) @ [OP_0 E]]"
    if "i < nBlockTx st" for i
  proof -
    from that n have "i < length txs" by simp
    from ix [OF this] obtain amount pks where
      "txs ! i = transparent_txNew E nHeight i amount pks" by blast
    with v show ?thesis by (simp add: transparent_txNew_vin fork_scriptSig_def)
  qed
  with False v show ?thesis by (simp add: dummy_txCoinbase_def)
qed

text \<open>
  The theorem at the file \<open>demo_utxo_100\<close> at height 200 (transparent): the one
  synthetic coinbase has index 0 and carries \<open>hashPid\<close>.
\<close>

theorem fork_coinbase_scripts_witness:
  "CreateNewForkBlock_at (demo_fork_env 3 demo_utxo_100) 200
     = Inr (projr (CreateNewForkBlock_at (demo_fork_env 3 demo_utxo_100) 200))
   \<and> nBlockTx (projr (CreateNewForkBlock_at (demo_fork_env 3 demo_utxo_100) 200)) = 1
   \<and> map scriptSig
        (vin (template_vtx (projr (CreateNewForkBlock_at (demo_fork_env 3 demo_utxo_100) 200)) ! 1))
       = [demo_push_int 200 @ demo_push_int 0 @ demo_push_bytes (replicate 32 1) @ [0]]"
proof -
  let ?E = "demo_fork_env 3 demo_utxo_100"
  have r: "CreateNewForkBlock_at ?E 200 = Inr (projr (CreateNewForkBlock_at ?E 200))"
    by (simp add: fork_eval demo_utxo_100_def)
  have h: "200 \<noteq> ZUtxoMiningStartBlock ?E" by (simp add: demo_fork_env_def)
  have n: "nBlockTx (projr (CreateNewForkBlock_at ?E 200)) = 1"
    by (simp add: fork_eval demo_utxo_100_def)
  have e: "push_int64 ?E = demo_push_int" "push_CScriptNum ?E = demo_push_int"
    "push_bytes ?E = demo_push_bytes" "hashPid ?E = replicate 32 1" "OP_0 ?E = 0"
    by (simp_all add: demo_fork_env_def)
  from fork_coinbase_scripts [OF r] h n
  have "map scriptSig (vin (template_vtx (projr (CreateNewForkBlock_at ?E 200)) ! Suc 0))
          = [push_int64 ?E 200 @ push_CScriptNum ?E (int 0) @ push_bytes ?E (hashPid ?E) @ [OP_0 ?E]]"
    by simp
  with r n e show ?thesis by simp
qed

subsection \<open>C3: the fee entries of a fork template\<close>

text \<open>
  C3 on the fork path. The fee entry at index 0 is pushed as \<open>-1\<close> (the source's
  comment: "updated at end") and never written again, and every synthetic coinbase gets
  the fee entry 0: in every fork template \<open>fees[0] = -1\<close> while the sum of the other
  entries is 0.
\<close>

theorem fork_fee_entry_zero_is_minus_one:
  assumes "CreateNewForkBlock_at E nHeight = Inr st"
  shows "vTxFees (pblocktemplate st) = - 1 # replicate (nBlockTx st) 0
     \<and> vTxFees (pblocktemplate st) ! 0 = - 1
     \<and> sum_list (tl (vTxFees (pblocktemplate st))) = 0
     \<and> vTxFees (pblocktemplate st) ! 0 \<noteq> - sum_list (tl (vTxFees (pblocktemplate st)))"
proof -
  have "vTxFees (pblocktemplate st) = - 1 # replicate (nBlockTx st) 0"
  proof (cases "nHeight = ZUtxoMiningStartBlock E")
    case True
    from assms True obtain txs bytes where
      "utxo_files E nHeight = Some bytes"
      "template_vtx st = dummy_txCoinbase E nHeight # txs"
      "vTxFees (pblocktemplate st) = - 1 # replicate (length txs) 0" "nBlockTx st = length txs"
      by (rule fork_template_shielded) blast
    then show ?thesis by simp
  next
    case False
    from assms False obtain txs where
      "template_vtx st = dummy_txCoinbase E nHeight # txs"
      "vTxFees (pblocktemplate st) = - 1 # replicate (length txs) 0" "nBlockTx st = length txs"
      by (rule fork_template_transparent) blast
    then show ?thesis by simp
  qed
  then show ?thesis by (simp add: sum_list_replicate)
qed

text \<open>The fork template built from \<open>demo_utxo_100\<close>: fee entries \<open>[-1, 0]\<close>.\<close>

theorem fork_fee_entry_zero_is_minus_one_witness:
  "CreateNewForkBlock_at (demo_fork_env 3 demo_utxo_100) 200
     = Inr (projr (CreateNewForkBlock_at (demo_fork_env 3 demo_utxo_100) 200))
   \<and> vTxFees_of (CreateNewForkBlock_at (demo_fork_env 3 demo_utxo_100) 200) = [- 1, 0]"
proof -
  let ?E = "demo_fork_env 3 demo_utxo_100"
  have r: "CreateNewForkBlock_at ?E 200 = Inr (projr (CreateNewForkBlock_at ?E 200))"
    by (simp add: fork_eval demo_utxo_100_def)
  have n: "nBlockTx (projr (CreateNewForkBlock_at ?E 200)) = 1"
    by (simp add: fork_eval demo_utxo_100_def)
  from fork_fee_entry_zero_is_minus_one [OF r] n
  have "vTxFees (pblocktemplate (projr (CreateNewForkBlock_at ?E 200))) = [- 1, 0]" by simp
  moreover have "vTxFees_of (CreateNewForkBlock_at ?E 200)
      = vTxFees (pblocktemplate (projr (CreateNewForkBlock_at ?E 200)))"
    by (subst r) (simp add: vTxFees_of_def)
  ultimately show ?thesis using r by simp
qed

subsection \<open>C9: UpdateTime\<close>

text \<open>
  The time in the words of the spec, over the integers: the larger of the previous
  block's median time past plus one and the adjusted current time.
\<close>

definition spec_header_time :: "'e chain_env_scheme \<Rightarrow> CBlockIndex \<Rightarrow> int" where
  "spec_header_time E pindexPrev
     = max (sint (GetMedianTimePast pindexPrev) + 1) (sint (GetAdjustedTime E))"

lemma sint_std_max: "sint (std_max a b) = max (sint a) (sint b)"
  by (simp add: std_max_def max_def)

lemma sint_succ64: "sint (a :: 64 word) < 2 ^ 63 - 1 \<Longrightarrow> sint (a + 1) = sint a + 1"
  using sint_ge [of a] by (simp add: sint_word_ariths signed_take_bit_int_eq_self)

lemma low32: "uint (w :: 64 word) mod 2 ^ 32 = sint w mod 2 ^ 32"
proof -
  have "take_bit 32 (sint w) = take_bit 32 (uint w)"
    by (simp add: sint_uint take_bit_signed_take_bit)
  then show ?thesis by (simp add: take_bit_eq_mod)
qed

lemma uint_ucast_low: "uint (ucast (w :: 64 word) :: 32 word) = sint w mod 2 ^ 32"
  using low32 [of w] by (simp add: unsigned_ucast_eq take_bit_eq_mod)

lemma uint_word_of_int32: "uint (word_of_int k :: 32 word) = k mod 2 ^ 32"
  by (simp add: uint_word_of_int take_bit_eq_mod)

lemma ucast_sint: "k = sint w \<Longrightarrow> (ucast (w :: 64 word) :: 32 word) = word_of_int k"
  by (rule word_uint_eqI) (simp only: uint_ucast_low uint_word_of_int32)

lemma std_max_time:
  assumes "sint (GetMedianTimePast pindexPrev) < 2 ^ 63 - 1"
  shows "sint (std_max (GetMedianTimePast pindexPrev + 1) (GetAdjustedTime E))
           = spec_header_time E pindexPrev"
  using assms by (simp add: sint_std_max sint_succ64 spec_header_time_def)

text \<open>
  C9, as the spec states it, fails where the maximum does not fit the header's field.
  With a median time past of \<open>2 ^ 32 - 1\<close> and the adjusted time 1500000000 of the
  sample environment the maximum is \<open>2 ^ 32\<close> and the header's time is set to 0.
\<close>

theorem UpdateTime_wraps_counterexample:
  "spec_header_time (demo_fork_env 3 []) (demo_tip 4294967295) = 4294967296
   \<and> uint (nTime (UpdateTime (demo_fork_env 3 []) CBlock_default (demo_tip 4294967295))) = 0"
  by (simp add: spec_header_time_def demo_fork_env_def demo_tip_def UpdateTime_def
        CBlock_default_def std_max_def Let_def)

text \<open>
  C9, amended: for every header and previous block index whose median time past is less
  than \<open>2 ^ 63 - 1\<close>, \<^verbatim>\<open>UpdateTime\<close> sets the header's time to the larger of the
  median time past plus one and the adjusted current time, reduced modulo \<open>2 ^ 32\<close>:
  to that number itself when it is in the range of the field. When the network allows
  minimum-difficulty blocks it sets \<open>nBits\<close> to the work required after the previous
  block for the header with its new time; otherwise \<open>nBits\<close> is left as it was. No
  other field of the header changes.
\<close>

theorem UpdateTime_time_modulo_and_bits:
  assumes "sint (GetMedianTimePast pindexPrev) < 2 ^ 63 - 1"
  shows
    "uint (nTime (UpdateTime E pblock pindexPrev)) = spec_header_time E pindexPrev mod 2 ^ 32
     \<and> (0 \<le> spec_header_time E pindexPrev \<and> spec_header_time E pindexPrev < 2 ^ 32 \<longrightarrow>
          uint (nTime (UpdateTime E pblock pindexPrev)) = spec_header_time E pindexPrev)
     \<and> nBits (UpdateTime E pblock pindexPrev)
         = (if fPowAllowMinDifficultyBlocks E
            then GetNextWorkRequired E pindexPrev
                   (CBlockHeader.truncate
                      (pblock\<lparr>nTime := word_of_int (spec_header_time E pindexPrev)\<rparr>))
            else nBits pblock)
     \<and> UpdateTime E pblock pindexPrev
         = pblock\<lparr>nTime := nTime (UpdateTime E pblock pindexPrev),
                  nBits := nBits (UpdateTime E pblock pindexPrev)\<rparr>"
proof -
  let ?w = "std_max (GetMedianTimePast pindexPrev + 1) (GetAdjustedTime E)"
  note t = std_max_time [OF assms, of E]
  have time: "nTime (UpdateTime E pblock pindexPrev) = ucast ?w"
    by (simp add: UpdateTime_def Let_def)
  have 1: "uint (nTime (UpdateTime E pblock pindexPrev)) = spec_header_time E pindexPrev mod 2 ^ 32"
    by (simp only: time uint_ucast_low t)
  have w: "(ucast ?w :: 32 word) = word_of_int (spec_header_time E pindexPrev)"
    by (rule ucast_sint) (simp only: t)
  have 3: "nBits (UpdateTime E pblock pindexPrev)
         = (if fPowAllowMinDifficultyBlocks E
            then GetNextWorkRequired E pindexPrev
                   (CBlockHeader.truncate
                      (pblock\<lparr>nTime := word_of_int (spec_header_time E pindexPrev)\<rparr>))
            else nBits pblock)"
    by (simp only: w [symmetric]) (simp add: UpdateTime_def Let_def)
  have 4: "UpdateTime E pblock pindexPrev
         = pblock\<lparr>nTime := nTime (UpdateTime E pblock pindexPrev),
                  nBits := nBits (UpdateTime E pblock pindexPrev)\<rparr>"
    by (simp add: UpdateTime_def Let_def)
  from 1 3 4 show ?thesis by simp
qed

text \<open>
  The theorem in the sample environment, after a block whose median time past is
  1500000600: the header's time becomes 1500000601 and \<open>nBits\<close> stays 0.
\<close>

theorem UpdateTime_time_modulo_and_bits_witness:
  "sint (GetMedianTimePast (demo_tip 1500000600)) < 2 ^ 63 - 1
   \<and> uint (nTime (UpdateTime (demo_fork_env 3 []) CBlock_default (demo_tip 1500000600)))
       = 1500000601
   \<and> nBits (UpdateTime (demo_fork_env 3 []) CBlock_default (demo_tip 1500000600)) = 0"
  using UpdateTime_time_modulo_and_bits [of "demo_tip 1500000600" "demo_fork_env 3 []" CBlock_default]
  by (simp add: demo_tip_def demo_fork_env_def spec_header_time_def CBlock_default_def)

section \<open>CreateNewBlock\<close>

subsection \<open>The environment of the standard builder\<close>

text \<open>
  The chain tip, the coins view (of an abstract type \<open>'v\<close>), the memory pool and the
  configuration, as \<^verbatim>\<open>CreateNewBlock\<close> reads them. \<open>mapTx\<close> is the pool's map
  in iteration order. \<open>coins_nValue\<close> and \<open>coins_nHeight\<close> stand for
  \<^verbatim>\<open>view.AccessCoins(hash)->vout[n].nValue\<close> and \<^verbatim>\<open>->nHeight\<close>,
  \<open>mempool_nValue\<close> for \<^verbatim>\<open>mempool.mapTx[hash].GetTx().vout[n].nValue\<close>. The
  three \<open>arg\<close> sizes are the values of \<^verbatim>\<open>GetArg\<close> as unsigned integers.
  Priorities are \<^verbatim>\<open>double\<close>s in the source and real numbers here.
\<close>

record 'v std_env = chain_env +
  chainActive_Tip :: CBlockIndex
  pcoinsTip :: 'v
  mapTx :: "(uint256 \<times> CTransaction) list"
  HaveCoins :: "'v \<Rightarrow> uint256 \<Rightarrow> bool"
  coins_nValue :: "'v \<Rightarrow> COutPoint \<Rightarrow> CAmount"
  coins_nHeight :: "'v \<Rightarrow> uint256 \<Rightarrow> int"
  mempool_nValue :: "COutPoint \<Rightarrow> CAmount"
  GetJoinSplitValueIn :: "CTransaction \<Rightarrow> CAmount"
  ComputePriority :: "CTransaction \<Rightarrow> real \<Rightarrow> nat \<Rightarrow> real"
  ApplyDeltas :: "uint256 \<Rightarrow> real \<times> CAmount \<Rightarrow> real \<times> CAmount"
  CFeeRate :: "CAmount \<Rightarrow> nat \<Rightarrow> int"
  minRelayTxFee :: int
  AllowFree :: "real \<Rightarrow> bool"
  GetHash :: "CTransaction \<Rightarrow> uint256"
  GetValueOut :: "CTransaction \<Rightarrow> CAmount"
  IsFinalTx :: "CTransaction \<Rightarrow> int \<Rightarrow> int \<Rightarrow> bool"
  HaveInputs :: "'v \<Rightarrow> CTransaction \<Rightarrow> bool"
  GetValueIn :: "'v \<Rightarrow> CTransaction \<Rightarrow> CAmount"
  GetP2SHSigOpCount :: "CTransaction \<Rightarrow> 'v \<Rightarrow> nat"
  ContextualCheckInputs :: "CTransaction \<Rightarrow> 'v \<Rightarrow> bool"
  UpdateCoins :: "CTransaction \<Rightarrow> 'v \<Rightarrow> int \<Rightarrow> 'v"
  GetBlockSubsidy :: "int \<Rightarrow> CAmount"
  arg_blockmaxsize :: nat
  arg_blockprioritysize :: nat
  arg_blockminsize :: nat
  MineBlocksOnDemand :: bool
  arg_blockversion :: "int \<Rightarrow> int"
  locktime_median_time_past :: bool
  fDebug :: bool
  COINBASE_FLAGS :: CScript
  BuildMerkleTree :: "CBlock \<Rightarrow> uint256"

subsection \<open>Orphans and the priority queue\<close>

record COrphan =
  ptx :: CTransaction
  setDependsOn :: "uint256 list"
  feeRate :: int
  dPriority :: real

definition COrphan_new :: "CTransaction \<Rightarrow> COrphan" where
  "COrphan_new ptxIn = \<lparr>ptx = ptxIn, setDependsOn = [], feeRate = 0, dPriority = 0\<rparr>"

type_synonym TxPriority = "real \<times> int \<times> CTransaction"

text \<open>\<^verbatim>\<open>TxPriorityCompare::operator()\<close>: is \<open>a\<close> below \<open>b\<close>?\<close>

definition TxPriorityCompare :: "bool \<Rightarrow> TxPriority \<Rightarrow> TxPriority \<Rightarrow> bool" where
  "TxPriorityCompare byFee a b =
     (if byFee then
        (if fst (snd a) = fst (snd b) then fst a < fst b else fst (snd a) < fst (snd b))
      else
        (if fst a = fst b then fst (snd a) < fst (snd b) else fst a < fst b))"

text \<open>
  The heap of the standard library keeps a greatest element of the vector at its front.
  The vector is a list here, \<^verbatim>\<open>push_heap\<close> appends, and the front is a greatest
  element (the first one, where the library leaves the choice open).
\<close>

fun heap_front :: "('a \<Rightarrow> 'a \<Rightarrow> bool) \<Rightarrow> 'a \<Rightarrow> 'a list \<Rightarrow> 'a" where
  "heap_front below x [] = x"
| "heap_front below x (y # ys) = heap_front below (if below x y then y else x) ys"

text \<open>
  The locals of the selection: the view, the orphans, the queue, the ordering in force
  and the fees so far. \<^verbatim>\<open>list<COrphan> vOrphan\<close> is a store of orphans addressed by
  handles (the pointers \<^verbatim>\<open>COrphan*\<close> of the source): a handle is an index into the
  list, never used twice, and the entry of an orphan that was popped is \<open>None\<close>.
  \<open>mapDependers\<close> maps a transaction id to the handles of the orphans that wait for
  it.
\<close>

record 'v select_state = build_state +
  view :: 'v
  vOrphan :: "COrphan option list"
  mapDependers :: "uint256 \<Rightarrow> nat list"
  vecPriority :: "TxPriority list"
  fSortedByFee :: bool
  nFees :: CAmount

definition orphan_at :: "COrphan option list \<Rightarrow> nat \<Rightarrow> COrphan option" where
  "orphan_at store p = (if p < length store then store ! p else None)"

definition update_orphan ::
  "nat \<Rightarrow> (COrphan \<Rightarrow> COrphan) \<Rightarrow> COrphan option list \<Rightarrow> COrphan option list"
where
  "update_orphan p f store =
     (if p < length store then store[p := map_option f (store ! p)] else store)"

subsection \<open>Collecting the pool (lines 837-906)\<close>

record input_scan =
  porphan :: "nat option"
  dPriorityIn :: real
  nTotalIn :: CAmount
  fMissingInputs :: bool

definition input_scan_start :: input_scan where
  "input_scan_start = \<lparr>porphan = None, dPriorityIn = 0, nTotalIn = 0, fMissingInputs = False\<rparr>"

text \<open>
  The loop over the inputs of a pool transaction (lines 850-886). An input whose
  previous transaction is in the view adds to the priority. One whose previous
  transaction is only in the pool makes the transaction an orphan that waits for it. One
  whose previous transaction is in neither ends the loop: the assertion fails under
  \<^verbatim>\<open>fDebug\<close>, otherwise the transaction is dropped and its orphan, if it has one,
  popped (the handles already put into \<open>mapDependers\<close> stay there).
\<close>

fun scan_inputs ::
  "('v, 'e) std_env_scheme \<Rightarrow> int \<Rightarrow> CTransaction \<Rightarrow> CTxIn list
     \<Rightarrow> input_scan \<times> 'v select_state \<Rightarrow> error + input_scan \<times> 'v select_state"
where
  "scan_inputs E nHeight tx [] (loc, s) = Inr (loc, s)"
| "scan_inputs E nHeight tx (txin # rest) (loc, s) =
     (let h = outpoint_hash (prevout txin) in
      if \<not> HaveCoins E (view s) h then
        if h \<notin> fst ` set (mapTx E) then
          if fDebug E then Inl AssertionFailed
          else
            Inr (loc\<lparr>fMissingInputs := True\<rparr>,
                 case porphan loc of
                   None \<Rightarrow> s
                 | Some p \<Rightarrow> s\<lparr>vOrphan := (vOrphan s)[p := None]\<rparr>)
        else
          let p = (case porphan loc of None \<Rightarrow> length (vOrphan s) | Some p \<Rightarrow> p);
              s = (case porphan loc of
                     None \<Rightarrow> s\<lparr>vOrphan := vOrphan s @ [Some (COrphan_new tx)]\<rparr>
                   | Some p \<Rightarrow> s);
              loc = loc\<lparr>porphan := Some p\<rparr>;
              s = s\<lparr>mapDependers := (mapDependers s)(h := mapDependers s h @ [p])\<rparr>;
              s = s\<lparr>vOrphan :=
                      update_orphan p
                        (\<lambda>orphan. orphan\<lparr>setDependsOn := List.insert h (setDependsOn orphan)\<rparr>)
                        (vOrphan s)\<rparr>;
              loc = loc\<lparr>nTotalIn := nTotalIn loc + mempool_nValue E (prevout txin)\<rparr>
          in scan_inputs E nHeight tx rest (loc, s)
      else
        let nValueIn = coins_nValue E (view s) (prevout txin);
            loc = loc\<lparr>nTotalIn := nTotalIn loc + nValueIn\<rparr>;
            nConf = nHeight - coins_nHeight E (view s) h;
            loc = loc\<lparr>dPriorityIn := dPriorityIn loc + real_of_int (sint nValueIn) * real_of_int nConf\<rparr>
        in scan_inputs E nHeight tx rest (loc, s))"

text \<open>One round of the loop over the pool (lines 839-905).\<close>

definition collect_tx ::
  "('v, 'e) std_env_scheme \<Rightarrow> int \<Rightarrow> int \<Rightarrow> CTransaction
     \<Rightarrow> 'v select_state \<Rightarrow> error + 'v select_state"
where
  "collect_tx E nHeight nLockTimeCutoff tx s =
     (if IsCoinBase tx \<or> \<not> IsFinalTx E tx nHeight nLockTimeCutoff then Inr s
      else
        case scan_inputs E nHeight tx (vin tx) (input_scan_start, s) of
          Inl e \<Rightarrow> Inl e
        | Inr (loc, s) \<Rightarrow>
           (let nTotalIn' = nTotalIn loc + GetJoinSplitValueIn E tx in
            if fMissingInputs loc then Inr s
            else
              let nTxSize = GetSerializeSize E tx;
                  dPriority' = ComputePriority E tx (dPriorityIn loc) nTxSize;
                  hash = GetHash E tx;
                  (dPriority', nTotalIn') = ApplyDeltas E hash (dPriority', nTotalIn');
                  feeRate' = CFeeRate E (nTotalIn' - GetValueOut E tx) nTxSize
              in case porphan loc of
                   Some p \<Rightarrow>
                     Inr (s\<lparr>vOrphan :=
                              update_orphan p
                                (\<lambda>orphan. orphan\<lparr>dPriority := dPriority', feeRate := feeRate'\<rparr>)
                                (vOrphan s)\<rparr>)
                 | None \<Rightarrow>
                     Inr (s\<lparr>vecPriority := vecPriority s @ [(dPriority', feeRate', tx)]\<rparr>)))"

fun collect_pool ::
  "('v, 'e) std_env_scheme \<Rightarrow> int \<Rightarrow> int \<Rightarrow> (uint256 \<times> CTransaction) list
     \<Rightarrow> 'v select_state \<Rightarrow> error + 'v select_state"
where
  "collect_pool E nHeight nLockTimeCutoff [] s = Inr s"
| "collect_pool E nHeight nLockTimeCutoff (mi # later) s =
     (case collect_tx E nHeight nLockTimeCutoff (snd mi) s of
        Inl e \<Rightarrow> Inl e
      | Inr s \<Rightarrow> collect_pool E nHeight nLockTimeCutoff later s)"

subsection \<open>Selecting from the queue (lines 917-997)\<close>

text \<open>The three size limits (lines 798-810), in unsigned 32-bit arithmetic.\<close>

definition nBlockMaxSize :: "('v, 'e) std_env_scheme \<Rightarrow> nat" where
  "nBlockMaxSize E = max 1000 (min (fork_nBlockMaxSize E) (arg_blockmaxsize E))"

definition nBlockPrioritySize :: "('v, 'e) std_env_scheme \<Rightarrow> nat" where
  "nBlockPrioritySize E = min (nBlockMaxSize E) (arg_blockprioritysize E)"

definition nBlockMinSize :: "('v, 'e) std_env_scheme \<Rightarrow> nat" where
  "nBlockMinSize E = min (nBlockMaxSize E) (arg_blockminsize E)"

text \<open>
  Lines 985-996: the orphans that wait for the transaction just added lose it from
  their dependency sets; one whose set becomes empty is pushed onto the queue. A handle
  whose orphan was popped is a dangling pointer.
\<close>

fun release_dependers ::
  "uint256 \<Rightarrow> nat list \<Rightarrow> 'v select_state \<Rightarrow> error + 'v select_state"
where
  "release_dependers hash [] s = Inr s"
| "release_dependers hash (p # ps) s =
     (case orphan_at (vOrphan s) p of
        None \<Rightarrow> Inl UseAfterFree
      | Some orphan \<Rightarrow>
          if setDependsOn orphan \<noteq> [] then
            let orphan = orphan\<lparr>setDependsOn := removeAll hash (setDependsOn orphan)\<rparr>;
                s = s\<lparr>vOrphan := (vOrphan s)[p := Some orphan]\<rparr>
            in if setDependsOn orphan = []
               then release_dependers hash ps
                      (s\<lparr>vecPriority :=
                           vecPriority s @ [(dPriority orphan, feeRate orphan, ptx orphan)]\<rparr>)
               else release_dependers hash ps s
          else release_dependers hash ps s)"

text \<open>Lines 969-978: the view is updated and the transaction is added to the template.\<close>

definition add_to_block ::
  "('v, 'e) std_env_scheme \<Rightarrow> int \<Rightarrow> CTransaction \<Rightarrow> nat \<Rightarrow> CAmount \<Rightarrow> nat
     \<Rightarrow> 'v select_state \<Rightarrow> 'v select_state"
where
  "add_to_block E nHeight tx nTxSize nTxFees nTxSigOps s =
     s\<lparr>view := UpdateCoins E tx (view s) nHeight,
        pblocktemplate :=
          (pblocktemplate s)
            \<lparr>block := (block (pblocktemplate s))\<lparr>vtx := vtx (block (pblocktemplate s)) @ [tx]\<rparr>,
             vTxFees := vTxFees (pblocktemplate s) @ [nTxFees],
             vTxSigOps := vTxSigOps (pblocktemplate s) @ [int nTxSigOps]\<rparr>,
        nBlockSize := nBlockSize s + nTxSize,
        nBlockTx := nBlockTx s + 1,
        nBlockSigOps := nBlockSigOps s + nTxSigOps,
        nFees := nFees s + nTxFees\<rparr>"

text \<open>
  The checks on the transaction taken off the queue that do not look at the view (lines
  926-942): it is skipped when it would reach the size limit or the sig-op limit, or
  when it is a free transaction past the minimum block size.
\<close>

definition skip_early :: "('v, 'e) std_env_scheme \<Rightarrow> TxPriority \<Rightarrow> 'v select_state \<Rightarrow> bool" where
  "skip_early E front s =
     (let feeRate' = fst (snd front);
          tx = snd (snd front);
          nTxSize = GetSerializeSize E tx
      in if nBlockSize s + nTxSize \<ge> nBlockMaxSize E then True
         else
           let nTxSigOps = GetLegacySigOpCount E tx in
           if nBlockSigOps s + nTxSigOps \<ge> MAX_BLOCK_SIGOPS E then True
           else
             let hash = GetHash E tx;
                 (dPriorityDelta, nFeeDelta) = ApplyDeltas E hash (0, 0)
             in fSortedByFee s \<and> dPriorityDelta \<le> 0 \<and> sint nFeeDelta \<le> 0
                \<and> feeRate' < minRelayTxFee E
                \<and> nBlockSize s + nTxSize \<ge> nBlockMinSize E)"

text \<open>The switch from priority order to fee order (lines 946-951).\<close>

definition switch_to_fee ::
  "('v, 'e) std_env_scheme \<Rightarrow> TxPriority \<Rightarrow> 'v select_state \<Rightarrow> 'v select_state"
where
  "switch_to_fee E front s =
     (let dPriority' = fst front;
          tx = snd (snd front);
          nTxSize = GetSerializeSize E tx
      in if \<not> fSortedByFee s
            \<and> (nBlockSize s + nTxSize \<ge> nBlockPrioritySize E \<or> \<not> AllowFree E dPriority')
         then s\<lparr>fSortedByFee := True\<rparr> else s)"

text \<open>
  The checks against the view (lines 953-967): \<open>None\<close> when the transaction is
  skipped, its fees and sig-op count otherwise.
\<close>

definition check_inputs ::
  "('v, 'e) std_env_scheme \<Rightarrow> CTransaction \<Rightarrow> 'v select_state \<Rightarrow> (CAmount \<times> nat) option"
where
  "check_inputs E tx s =
     (if \<not> HaveInputs E (view s) tx then None
      else
        let nTxFees = GetValueIn E (view s) tx - GetValueOut E tx;
            nTxSigOps = GetLegacySigOpCount E tx + GetP2SHSigOpCount E tx (view s)
        in if nBlockSigOps s + nTxSigOps \<ge> MAX_BLOCK_SIGOPS E then None
           else if \<not> ContextualCheckInputs E tx (view s) then None
           else Some (nTxFees, nTxSigOps))"

text \<open>
  One round of the selection loop on a queue that is not empty (lines 918-996). Every
  \<^verbatim>\<open>continue\<close> of the source is the state with the front popped.
\<close>

definition select_round ::
  "('v, 'e) std_env_scheme \<Rightarrow> int \<Rightarrow> 'v select_state \<Rightarrow> error + 'v select_state"
where
  "select_round E nHeight s =
     (case vecPriority s of
        [] \<Rightarrow> Inr s
      | x # xs \<Rightarrow>
         (let front = heap_front (TxPriorityCompare (fSortedByFee s)) x xs;
              tx = snd (snd front);
              s = s\<lparr>vecPriority := remove1 front (vecPriority s)\<rparr>
          in if skip_early E front s then Inr s
             else
               let s = switch_to_fee E front s in
               case check_inputs E tx s of
                 None \<Rightarrow> Inr s
               | Some (nTxFees, nTxSigOps) \<Rightarrow>
                   release_dependers (GetHash E tx) (mapDependers s (GetHash E tx))
                     (add_to_block E nHeight tx (GetSerializeSize E tx) nTxFees nTxSigOps s)))"

subsection \<open>Termination of the selection\<close>

text \<open>
  Every round of the selection pops the front of the queue, and an orphan is pushed at
  most once, when its dependency set becomes empty: the length of the queue plus the
  number of orphans that still wait decreases.
\<close>

definition waiting :: "COrphan option \<Rightarrow> bool" where
  "waiting entry = (case entry of None \<Rightarrow> False | Some orphan \<Rightarrow> setDependsOn orphan \<noteq> [])"

definition select_measure :: "'v select_state \<Rightarrow> nat" where
  "select_measure s = length (vecPriority s) + length (filter waiting (vOrphan s))"

lemma length_filter_update:
  "i < length xs \<Longrightarrow>
     length (filter P (xs[i := y])) + (if P (xs ! i) then 1 else 0)
       = length (filter P xs) + (if P y then 1 else 0)"
proof (induction xs arbitrary: i)
  case Nil
  then show ?case by simp
next
  case (Cons x xs)
  then show ?case by (cases i) auto
qed

lemma orphan_at_Some:
  "orphan_at store p = Some orphan \<Longrightarrow> p < length store \<and> store ! p = Some orphan"
  by (simp add: orphan_at_def split: if_splits)

lemma release_dependers_measure:
  "release_dependers hash ps s = Inr s' \<Longrightarrow> select_measure s' \<le> select_measure s"
proof (induction ps arbitrary: s)
  case Nil
  then show ?case by simp
next
  case (Cons p ps)
  from Cons.prems obtain orphan where o: "orphan_at (vOrphan s) p = Some orphan"
    by (auto split: option.splits)
  note at = orphan_at_Some [OF o]
  show ?case
  proof (cases "setDependsOn orphan = []")
    case True
    with Cons.prems o have "release_dependers hash ps s = Inr s'" by simp
    then show ?thesis by (rule Cons.IH)
  next
    case False
    let ?o = "orphan\<lparr>setDependsOn := removeAll hash (setDependsOn orphan)\<rparr>"
    let ?s1 = "s\<lparr>vOrphan := (vOrphan s)[p := Some ?o]\<rparr>"
    from False at have w: "waiting (vOrphan s ! p)" by (simp add: waiting_def)
    from length_filter_update [of p "vOrphan s" waiting "Some ?o"] at w
    have len: "length (filter waiting ((vOrphan s)[p := Some ?o])) + 1
                 = length (filter waiting (vOrphan s)) + (if waiting (Some ?o) then 1 else 0)"
      by simp
    show ?thesis
    proof (cases "removeAll hash (setDependsOn orphan) = []")
      case True
      let ?s2 = "?s1\<lparr>vecPriority := vecPriority ?s1 @ [(dPriority ?o, feeRate ?o, ptx ?o)]\<rparr>"
      from True False Cons.prems o have "release_dependers hash ps ?s2 = Inr s'"
        by (simp add: Let_def)
      then have "select_measure s' \<le> select_measure ?s2" by (rule Cons.IH)
      also from True len have "select_measure ?s2 = select_measure s"
        by (simp add: select_measure_def waiting_def)
      finally show ?thesis .
    next
      case nonempty: False
      from nonempty False Cons.prems o have "release_dependers hash ps ?s1 = Inr s'"
        by (simp add: Let_def)
      then have "select_measure s' \<le> select_measure ?s1" by (rule Cons.IH)
      also from nonempty len have "select_measure ?s1 = select_measure s"
        by (simp add: select_measure_def waiting_def)
      finally show ?thesis .
    qed
  qed
qed

lemma heap_front_in: "heap_front below x ys \<in> set (x # ys)"
  by (induction ys arbitrary: x) auto

text \<open>How a round of the selection can end.\<close>

definition queue_front :: "'v select_state \<Rightarrow> TxPriority" where
  "queue_front s =
     (case vecPriority s of
        x # xs \<Rightarrow> heap_front (TxPriorityCompare (fSortedByFee s)) x xs)"

definition popped :: "bool \<Rightarrow> 'v select_state \<Rightarrow> 'v select_state" where
  "popped byFee s =
     s\<lparr>vecPriority := remove1 (queue_front s) (vecPriority s), fSortedByFee := byFee\<rparr>"

lemma switch_to_fee_popped:
  "switch_to_fee E front (s\<lparr>vecPriority := q\<rparr>) = s\<lparr>vecPriority := q\<rparr>
   \<or> switch_to_fee E front (s\<lparr>vecPriority := q\<rparr>) = s\<lparr>vecPriority := q, fSortedByFee := True\<rparr>"
  by (simp add: switch_to_fee_def Let_def)

lemma select_round_unfold:
  assumes "vecPriority s \<noteq> []"
  shows "select_round E nHeight s =
     (let front = queue_front s;
          tx = snd (snd front);
          s0 = s\<lparr>vecPriority := remove1 front (vecPriority s)\<rparr>
      in if skip_early E front s0 then Inr s0
         else
           let s1 = switch_to_fee E front s0 in
           case check_inputs E tx s1 of
             None \<Rightarrow> Inr s1
           | Some (nTxFees, nTxSigOps) \<Rightarrow>
               release_dependers (GetHash E tx) (mapDependers s1 (GetHash E tx))
                 (add_to_block E nHeight tx (GetSerializeSize E tx) nTxFees nTxSigOps s1))"
  using assms by (cases "vecPriority s") (simp_all add: select_round_def queue_front_def)

lemma select_round_cases:
  assumes "vecPriority s \<noteq> []" and "select_round E nHeight s = r"
  obtains
    (skipped) byFee where "r = Inr (popped byFee s)"
  | (added) byFee nTxFees nTxSigOps where
      "check_inputs E (snd (snd (queue_front s))) (popped byFee s) = Some (nTxFees, nTxSigOps)"
      "r = release_dependers (GetHash E (snd (snd (queue_front s))))
             (mapDependers s (GetHash E (snd (snd (queue_front s)))))
             (add_to_block E nHeight (snd (snd (queue_front s)))
                (GetSerializeSize E (snd (snd (queue_front s)))) nTxFees nTxSigOps
                (popped byFee s))"
proof -
  let ?front = "queue_front s"
  let ?tx = "snd (snd ?front)"
  let ?s0 = "s\<lparr>vecPriority := remove1 ?front (vecPriority s)\<rparr>"
  note u = select_round_unfold [OF assms(1), where E = E and nHeight = nHeight, unfolded assms(2)]
  have p0: "?s0 = popped (fSortedByFee s) s" by (simp add: popped_def)
  show ?thesis
  proof (cases "skip_early E ?front ?s0")
    case True
    with u have "r = Inr ?s0" by (simp add: Let_def)
    with p0 show ?thesis by (intro skipped [of "fSortedByFee s"]) simp
  next
    case False
    let ?s1 = "switch_to_fee E ?front ?s0"
    have "?s1 = ?s0 \<or> ?s1 = ?s0\<lparr>fSortedByFee := True\<rparr>"
      by (rule switch_to_fee_popped)
    moreover have "?s0\<lparr>fSortedByFee := True\<rparr> = popped True s" by (simp add: popped_def)
    ultimately have "?s1 = popped (fSortedByFee s) s \<or> ?s1 = popped True s"
      using p0 by simp
    then obtain byFee where s1: "?s1 = popped byFee s" by blast
    have md: "mapDependers (popped byFee s) = mapDependers s" by (simp add: popped_def)
    show ?thesis
    proof (cases "check_inputs E ?tx ?s1")
      case None
      with False u have "r = Inr ?s1" by (simp add: Let_def)
      with s1 show ?thesis by (intro skipped [of byFee]) simp
    next
      case (Some a)
      then obtain nTxFees nTxSigOps where a: "a = (nTxFees, nTxSigOps)" by (cases a)
      with Some False u
      have "r = release_dependers (GetHash E ?tx) (mapDependers ?s1 (GetHash E ?tx))
                  (add_to_block E nHeight ?tx (GetSerializeSize E ?tx) nTxFees nTxSigOps ?s1)"
        by (simp add: Let_def)
      with Some a s1 md show ?thesis by (intro added [of byFee nTxFees nTxSigOps]) simp_all
    qed
  qed
qed

lemma popped_measure:
  assumes "vecPriority s \<noteq> []"
  shows "select_measure (popped byFee s) < select_measure s"
proof -
  from assms obtain x xs where v: "vecPriority s = x # xs" by (cases "vecPriority s") auto
  have "queue_front s \<in> set (vecPriority s)"
    using heap_front_in [of "TxPriorityCompare (fSortedByFee s)" x xs]
    by (simp add: queue_front_def v)
  then have "length (remove1 (queue_front s) (vecPriority s)) < length (vecPriority s)"
    using assms by (simp add: length_remove1)
  then show ?thesis by (simp add: select_measure_def popped_def)
qed

lemma add_to_block_measure [simp]:
  "select_measure (add_to_block E nHeight tx a b c s) = select_measure s"
  by (simp add: select_measure_def add_to_block_def)

lemma select_round_measure:
  assumes "vecPriority s \<noteq> []" and "select_round E nHeight s = Inr s'"
  shows "select_measure s' < select_measure s"
  using assms
proof (cases rule: select_round_cases)
  case (skipped byFee)
  with popped_measure [OF assms(1)] show ?thesis by simp
next
  case (added byFee nTxFees nTxSigOps)
  from release_dependers_measure [OF added(2) [symmetric]] popped_measure [OF assms(1), of byFee]
  show ?thesis by simp
qed

text \<open>The selection loop: \<^verbatim>\<open>while (!vecPriority.empty()) { ... }\<close>.\<close>

function select_loop ::
  "('v, 'e) std_env_scheme \<Rightarrow> int \<Rightarrow> 'v select_state \<Rightarrow> error + 'v select_state"
where
  "select_loop E nHeight s =
     (if vecPriority s = [] then Inr s
      else case select_round E nHeight s of
             Inl e \<Rightarrow> Inl e
           | Inr s' \<Rightarrow> select_loop E nHeight s')"
  by pat_completeness auto
termination
  by (relation "measure (\<lambda>(E, nHeight, s). select_measure s)")
     (auto dest: select_round_measure)

declare select_loop.simps [simp del]

subsection \<open>CreateNewBlock and IncrementExtraNonce\<close>

text \<open>The locals before the pool is collected (lines 787-835).\<close>

definition select_initial_state :: "('v, 'e) std_env_scheme \<Rightarrow> 'v select_state" where
  "select_initial_state E =
     (let pindexPrev = chainActive_Tip E;
          pblock = CBlock_default\<lparr>vtx := [CTransaction_default]\<rparr>;
          pblock = pblock\<lparr>nTime := ucast (GetAdjustedTime E)\<rparr>;
          pblock = pblock\<lparr>hdr_nVersion := ComputeBlockVersion E pindexPrev\<rparr>;
          pblock = (if MineBlocksOnDemand E
                    then pblock\<lparr>hdr_nVersion := arg_blockversion E (hdr_nVersion pblock)\<rparr>
                    else pblock)
      in \<lparr>pblocktemplate = \<lparr>block = pblock, vTxFees = [- 1], vTxSigOps = [- 1]\<rparr>,
          nBlockSize = 1000, nBlockTx = 0, nBlockSigOps = 100,
          view = pcoinsTip E, vOrphan = [], mapDependers = (\<lambda>h. []), vecPriority = [],
          fSortedByFee = (nBlockPrioritySize E \<le> 0), nFees = 0\<rparr>)"

text \<open>
  The coinbase that pays the miner (lines 1004-1013):
  \<^verbatim>\<open>CScript() << nHeight << OP_0\<close>, the subsidy plus the fees.
\<close>

definition miner_txNew ::
  "('v, 'e) std_env_scheme \<Rightarrow> CScript \<Rightarrow> int \<Rightarrow> CAmount \<Rightarrow> CTransaction"
where
  "miner_txNew E scriptPubKeyIn nHeight fees =
     (let txin = CTxIn_default\<lparr>prevout := SetNull\<rparr>;
          txout = CTxOut_default\<lparr>scriptPubKey := scriptPubKeyIn\<rparr>;
          txout = txout\<lparr>nValue := GetBlockSubsidy E nHeight\<rparr>;
          txout = txout\<lparr>nValue := nValue txout + fees\<rparr>;
          txin = txin\<lparr>scriptSig := push_int64 E nHeight @ [OP_0 E]\<rparr>
      in CTransaction_default\<lparr>vin := [txin], vout := [txout]\<rparr>)"

text \<open>
  Lines 1003-1031: the coinbase and the fee entry at index 0, and the header. The
  template is \<open>pblocktemplate s\<close> at the end of the selection.
\<close>

definition finish_template ::
  "('v, 'e) std_env_scheme \<Rightarrow> CScript \<Rightarrow> int \<Rightarrow> 'v select_state \<Rightarrow> CBlockTemplate"
where
  "finish_template E scriptPubKeyIn nHeight s =
     (let pindexPrev = chainActive_Tip E;
          tmpl = pblocktemplate s;
          pblock = block tmpl;
          pblock = pblock\<lparr>vtx := (vtx pblock)[0 := miner_txNew E scriptPubKeyIn nHeight (nFees s)]\<rparr>;
          tmpl = tmpl\<lparr>vTxFees := (vTxFees tmpl)[0 := - nFees s]\<rparr>;
          pblock = pblock\<lparr>nNonce := randomise_nonce E\<rparr>;
          pblock = pblock\<lparr>hashPrevBlock := GetBlockHash pindexPrev\<rparr>;
          pblock = pblock\<lparr>hashReserved := 0\<rparr>;
          pblock = UpdateTime E pblock pindexPrev;
          pblock = pblock\<lparr>nBits := GetNextWorkRequired E pindexPrev (CBlockHeader.truncate pblock)\<rparr>;
          pblock = pblock\<lparr>nSolution := []\<rparr>;
          tmpl = tmpl\<lparr>vTxSigOps := (vTxSigOps tmpl)[0 := int (GetLegacySigOpCount E (vtx pblock ! 0))]\<rparr>
      in tmpl\<lparr>block := pblock\<rparr>)"

text \<open>
  \<^verbatim>\<open>CreateNewBlock(scriptPubKeyIn)\<close>. The two counters \<^verbatim>\<open>nLastBlockTx\<close> and
  \<^verbatim>\<open>nLastBlockSize\<close> that it stores on the way are the final \<open>nBlockTx\<close> and
  \<open>nBlockSize\<close>; they are not part of the result.
\<close>

definition CreateNewBlock ::
  "('v, 'e) std_env_scheme \<Rightarrow> CScript \<Rightarrow> error + CBlockTemplate"
where
  "CreateNewBlock E scriptPubKeyIn =
     (let pindexPrev = chainActive_Tip E;
          nHeight = index_nHeight pindexPrev + 1;
          s = select_initial_state E;
          nMedianTimePast = GetMedianTimePast pindexPrev;
          nLockTimeCutoff = (if locktime_median_time_past E then sint nMedianTimePast
                             else uint (nTime (block (pblocktemplate s))))
      in case collect_pool E nHeight nLockTimeCutoff (mapTx E) s of
           Inl e \<Rightarrow> Inl e
         | Inr s \<Rightarrow>
            (case select_loop E nHeight s of
               Inl e \<Rightarrow> Inl e
             | Inr s \<Rightarrow>
                (let tmpl = finish_template E scriptPubKeyIn nHeight s in
                 if \<not> TestBlockValidity E (block tmpl) pindexPrev False
                 then Inl TestBlockValidityFailed
                 else Inr tmpl)))"

text \<open>
  \<^verbatim>\<open>IncrementExtraNonce\<close> (lines 1090-1106). The static \<^verbatim>\<open>hashPrevBlock\<close> is an
  argument and a result, as the counter is. \<^verbatim>\<open>unsigned int nHeight\<close> is the height
  plus one modulo \<open>2 ^ 32\<close>. \<^verbatim>\<open>vtx[0]\<close> and \<^verbatim>\<open>vin[0]\<close> are read without a check.
\<close>

definition extra_nonce_scriptSig ::
  "('v, 'e) std_env_scheme \<Rightarrow> CBlockIndex \<Rightarrow> 32 word \<Rightarrow> CScript"
where
  "extra_nonce_scriptSig E pindexPrev nExtraNonce =
     (let nHeight = (word_of_int (index_nHeight pindexPrev + 1) :: 32 word)
      in (push_int64 E (uint nHeight) @ push_CScriptNum E (uint nExtraNonce)) @ COINBASE_FLAGS E)"

definition IncrementExtraNonce ::
  "('v, 'e) std_env_scheme \<Rightarrow> CBlock \<Rightarrow> CBlockIndex \<Rightarrow> 32 word \<Rightarrow> uint256
     \<Rightarrow> error + CBlock \<times> 32 word \<times> uint256"
where
  "IncrementExtraNonce E pblock pindexPrev nExtraNonce hashPrevBlock_static =
     (let nExtraNonce = (if hashPrevBlock_static \<noteq> hashPrevBlock pblock then 0 else nExtraNonce);
          hashPrevBlock_static = hashPrevBlock pblock;
          nExtraNonce = nExtraNonce + 1
      in case vtx pblock of
           [] \<Rightarrow> Inl OutOfBounds
         | txCoinbase # others \<Rightarrow>
            (case vin txCoinbase of
               [] \<Rightarrow> Inl OutOfBounds
             | txin # ins \<Rightarrow>
                (let txin = txin\<lparr>scriptSig := extra_nonce_scriptSig E pindexPrev nExtraNonce\<rparr> in
                 if \<not> length (scriptSig txin) \<le> 100 then Inl AssertionFailed
                 else
                   let pblock = pblock\<lparr>vtx := txCoinbase\<lparr>vin := txin # ins\<rparr> # others\<rparr>;
                       pblock = pblock\<lparr>hashMerkleRoot := BuildMerkleTree E pblock\<rparr>
                   in Inr (pblock, nExtraNonce, hashPrevBlock_static))))"

section \<open>Facts about the standard builder\<close>

subsection \<open>The invariant of the selection\<close>

text \<open>
  The parents of a pool transaction that are in the pool rather than in the chain: the
  transactions named by those of its inputs that the view at the tip does not have.
\<close>

definition pool_parents :: "('v, 'e) std_env_scheme \<Rightarrow> CTransaction \<Rightarrow> uint256 list" where
  "pool_parents E tx =
     map (\<lambda>txin. outpoint_hash (prevout txin))
       (filter (\<lambda>txin. \<not> HaveCoins E (pcoinsTip E) (outpoint_hash (prevout txin))) (vin tx))"

definition selected :: "'a build_state_scheme \<Rightarrow> CTransaction list" where
  "selected s = tl (template_vtx s)"

text \<open>In a list of transactions, every pool parent comes before its child.\<close>

definition parents_first :: "('v, 'e) std_env_scheme \<Rightarrow> CTransaction list \<Rightarrow> bool" where
  "parents_first E txs \<longleftrightarrow>
     (\<forall>i < length txs. \<forall>h \<in> set (pool_parents E (txs ! i)). \<exists>j < i. GetHash E (txs ! j) = h)"

text \<open>
  The invariant, in three parts. A transaction is ready when it is no coinbase and all
  its pool parents are among the selected transactions; every transaction on the queue
  is ready. An orphan is tracked when it is no coinbase and each of its pool parents is
  selected or still in its dependency set; every orphan in the store is tracked. The
  template is in order when the selected transactions are in parents-first order, none
  is a coinbase, and \<open>nFees\<close> is the sum of the fee entries after the first.
\<close>

definition ready :: "('v, 'e) std_env_scheme \<Rightarrow> CTransaction list \<Rightarrow> CTransaction \<Rightarrow> bool" where
  "ready E txs tx \<longleftrightarrow> set (pool_parents E tx) \<subseteq> GetHash E ` set txs \<and> \<not> IsCoinBase tx"

definition tracked :: "('v, 'e) std_env_scheme \<Rightarrow> CTransaction list \<Rightarrow> COrphan \<Rightarrow> bool" where
  "tracked E txs orphan \<longleftrightarrow>
     set (pool_parents E (ptx orphan)) \<subseteq> set (setDependsOn orphan) \<union> GetHash E ` set txs
     \<and> \<not> IsCoinBase (ptx orphan)"

definition queue_ready :: "('v, 'e) std_env_scheme \<Rightarrow> 'v select_state \<Rightarrow> bool" where
  "queue_ready E s \<longleftrightarrow> (\<forall>e \<in> set (vecPriority s). ready E (selected s) (snd (snd e)))"

definition orphans_tracked :: "('v, 'e) std_env_scheme \<Rightarrow> 'v select_state \<Rightarrow> bool" where
  "orphans_tracked E s \<longleftrightarrow>
     (\<forall>orphan. Some orphan \<in> set (vOrphan s) \<longrightarrow> tracked E (selected s) orphan)"

definition template_in_order :: "('v, 'e) std_env_scheme \<Rightarrow> 'v select_state \<Rightarrow> bool" where
  "template_in_order E s \<longleftrightarrow>
     parents_first E (selected s)
     \<and> (\<forall>tx \<in> set (selected s). \<not> IsCoinBase tx)
     \<and> template_vtx s \<noteq> []
     \<and> length (vTxFees (pblocktemplate s)) = length (template_vtx s)
     \<and> nFees s = sum_list (tl (vTxFees (pblocktemplate s)))"

definition select_inv :: "('v, 'e) std_env_scheme \<Rightarrow> 'v select_state \<Rightarrow> bool" where
  "select_inv E s \<longleftrightarrow> queue_ready E s \<and> orphans_tracked E s \<and> template_in_order E s"

lemma select_inv_initial: "select_inv E (select_initial_state E)"
  by (simp add: select_inv_def queue_ready_def orphans_tracked_def template_in_order_def
        select_initial_state_def Let_def selected_def template_vtx_def parents_first_def)

lemma ready_mono: "ready E txs tx \<Longrightarrow> set txs \<subseteq> set txs' \<Longrightarrow> ready E txs' tx"
  unfolding ready_def by blast

lemma tracked_mono: "tracked E txs orphan \<Longrightarrow> set txs \<subseteq> set txs' \<Longrightarrow> tracked E txs' orphan"
  unfolding tracked_def by blast

lemma popped_simps [simp]:
  "vOrphan (popped byFee s) = vOrphan s"
  "pblocktemplate (popped byFee s) = pblocktemplate s"
  "nFees (popped byFee s) = nFees s"
  "mapDependers (popped byFee s) = mapDependers s"
  "view (popped byFee s) = view s"
  "selected (popped byFee s) = selected s"
  "template_vtx (popped byFee s) = template_vtx s"
  "vecPriority (popped byFee s) = remove1 (queue_front s) (vecPriority s)"
  by (simp_all add: popped_def selected_def template_vtx_def)

lemma select_inv_popped:
  assumes "select_inv E s"
  shows "select_inv E (popped byFee s)"
proof -
  from assms have q: "queue_ready E s" and o: "orphans_tracked E s" and t: "template_in_order E s"
    by (simp_all add: select_inv_def)
  have "queue_ready E (popped byFee s)"
    unfolding queue_ready_def
  proof
    fix e
    assume "e \<in> set (vecPriority (popped byFee s))"
    then have "e \<in> set (vecPriority s)"
      using set_remove1_subset [of "queue_front s" "vecPriority s"] by auto
    with q show "ready E (selected (popped byFee s)) (snd (snd e))"
      by (simp add: queue_ready_def)
  qed
  moreover from o have "orphans_tracked E (popped byFee s)"
    by (simp add: orphans_tracked_def)
  moreover from t have "template_in_order E (popped byFee s)"
    by (simp add: template_in_order_def)
  ultimately show ?thesis by (simp add: select_inv_def)
qed

text \<open>Adding the front of the queue to the template.\<close>

lemma parents_first_snoc:
  assumes "parents_first E txs"
    and "set (pool_parents E tx) \<subseteq> GetHash E ` set txs"
  shows "parents_first E (txs @ [tx])"
  unfolding parents_first_def
proof (intro allI impI ballI)
  fix i h
  assume i: "i < length (txs @ [tx])" and h: "h \<in> set (pool_parents E ((txs @ [tx]) ! i))"
  show "\<exists>j < i. GetHash E ((txs @ [tx]) ! j) = h"
  proof (cases "i < length txs")
    case True
    with h have "h \<in> set (pool_parents E (txs ! i))" by (simp add: nth_append)
    with True assms(1) obtain j where j: "j < i" "GetHash E (txs ! j) = h"
      unfolding parents_first_def by blast
    with True have "GetHash E ((txs @ [tx]) ! j) = h" by (simp add: nth_append)
    with j(1) show ?thesis by blast
  next
    case False
    with i have eq: "i = length txs" by simp
    with h have "h \<in> set (pool_parents E tx)" by simp
    with assms(2) have "h \<in> GetHash E ` set txs" by blast
    then obtain j where j: "j < length txs" "GetHash E (txs ! j) = h"
      by (auto simp: in_set_conv_nth)
    then have "GetHash E ((txs @ [tx]) ! j) = h" by (simp add: nth_append)
    with j(1) eq show ?thesis by blast
  qed
qed

lemma add_to_block_simps [simp]:
  "template_vtx (add_to_block E nHeight tx a f c s) = template_vtx s @ [tx]"
  "vTxFees (pblocktemplate (add_to_block E nHeight tx a f c s)) = vTxFees (pblocktemplate s) @ [f]"
  "nFees (add_to_block E nHeight tx a f c s) = nFees s + f"
  "vecPriority (add_to_block E nHeight tx a f c s) = vecPriority s"
  "vOrphan (add_to_block E nHeight tx a f c s) = vOrphan s"
  "mapDependers (add_to_block E nHeight tx a f c s) = mapDependers s"
  by (simp_all add: add_to_block_def template_vtx_def)

lemma select_inv_add_to_block:
  assumes inv: "select_inv E s" and tx: "ready E (selected s) tx"
  shows "select_inv E (add_to_block E nHeight tx a f c s)"
    and "GetHash E tx \<in> GetHash E ` set (selected (add_to_block E nHeight tx a f c s))"
proof -
  let ?s' = "add_to_block E nHeight tx a f c s"
  from inv have q: "queue_ready E s" and o: "orphans_tracked E s" and t: "template_in_order E s"
    by (simp_all add: select_inv_def)
  from t have ne: "template_vtx s \<noteq> []"
    and len: "length (vTxFees (pblocktemplate s)) = length (template_vtx s)"
    and pf: "parents_first E (selected s)"
    and nc: "\<forall>tx \<in> set (selected s). \<not> IsCoinBase tx"
    and fees: "nFees s = sum_list (tl (vTxFees (pblocktemplate s)))"
    by (simp_all add: template_in_order_def)
  from ne have sel: "selected ?s' = selected s @ [tx]"
    by (simp add: selected_def)
  then have sub: "set (selected s) \<subseteq> set (selected ?s')" by auto
  from len ne have "vTxFees (pblocktemplate s) \<noteq> []" by auto
  then have tlf: "tl (vTxFees (pblocktemplate s) @ [f]) = tl (vTxFees (pblocktemplate s)) @ [f]"
    by simp
  from tx have par: "set (pool_parents E tx) \<subseteq> GetHash E ` set (selected s)"
    and ncb: "\<not> IsCoinBase tx"
    by (simp_all add: ready_def)
  have "queue_ready E ?s'"
    using q by (auto simp: queue_ready_def intro: ready_mono [OF _ sub])
  moreover have "orphans_tracked E ?s'"
    using o by (auto simp: orphans_tracked_def intro: tracked_mono [OF _ sub])
  moreover have "template_in_order E ?s'"
    using parents_first_snoc [OF pf par] nc ncb ne len fees sel tlf
    by (simp add: template_in_order_def)
  ultimately show "select_inv E ?s'" by (simp add: select_inv_def)
  from sel show "GetHash E tx \<in> GetHash E ` set (selected ?s')" by simp
qed

text \<open>Releasing the orphans that waited for a selected transaction.\<close>

lemma release_dependers_frame:
  "release_dependers hash ps s = Inr s' \<Longrightarrow>
     pblocktemplate s' = pblocktemplate s \<and> nFees s' = nFees s \<and> view s' = view s"
proof (induction ps arbitrary: s)
  case Nil
  then show ?case by simp
next
  case (Cons p ps)
  from Cons.prems obtain orphan where o: "orphan_at (vOrphan s) p = Some orphan"
    by (auto split: option.splits)
  let ?o = "orphan\<lparr>setDependsOn := removeAll hash (setDependsOn orphan)\<rparr>"
  let ?s1 = "s\<lparr>vOrphan := (vOrphan s)[p := Some ?o]\<rparr>"
  let ?s2 = "?s1\<lparr>vecPriority := vecPriority ?s1 @ [(dPriority ?o, feeRate ?o, ptx ?o)]\<rparr>"
  from Cons.prems o have
    "release_dependers hash ps s = Inr s'
     \<or> release_dependers hash ps ?s1 = Inr s'
     \<or> release_dependers hash ps ?s2 = Inr s'"
    by (simp add: Let_def split: if_splits)
  then show ?case
  proof (elim disjE)
    assume "release_dependers hash ps s = Inr s'"
    then show ?thesis by (rule Cons.IH)
  next
    assume "release_dependers hash ps ?s1 = Inr s'"
    from Cons.IH [OF this] show ?thesis by simp
  next
    assume "release_dependers hash ps ?s2 = Inr s'"
    from Cons.IH [OF this] show ?thesis by simp
  qed
qed

lemma tracked_erase:
  assumes "tracked E txs orphan" and "hash \<in> GetHash E ` set txs"
  shows "tracked E txs (orphan\<lparr>setDependsOn := removeAll hash (setDependsOn orphan)\<rparr>)"
  using assms unfolding tracked_def by auto

lemma tracked_empty_ready:
  assumes "tracked E txs orphan" and "setDependsOn orphan = []"
  shows "ready E txs (ptx orphan)"
  using assms unfolding tracked_def ready_def by simp

lemma orphans_tracked_update:
  assumes "orphans_tracked E s" and "tracked E (selected s) orphan"
  shows "orphans_tracked E (s\<lparr>vOrphan := (vOrphan s)[p := Some orphan]\<rparr>)"
proof -
  have sel: "selected (s\<lparr>vOrphan := (vOrphan s)[p := Some orphan]\<rparr>) = selected s"
    by (simp add: selected_def template_vtx_def)
  have "tracked E (selected s) o'"
    if "Some o' \<in> set ((vOrphan s)[p := Some orphan])" for o'
  proof -
    from that set_update_subset_insert [of "vOrphan s" p "Some orphan"]
    have "o' = orphan \<or> Some o' \<in> set (vOrphan s)" by auto
    with assms show ?thesis by (auto simp: orphans_tracked_def)
  qed
  with sel show ?thesis by (simp add: orphans_tracked_def)
qed

lemma select_inv_release:
  assumes "release_dependers hash ps s = Inr s'"
    and "select_inv E s"
    and "hash \<in> GetHash E ` set (selected s)"
  shows "select_inv E s'"
  using assms
proof (induction ps arbitrary: s)
  case Nil
  then show ?case by simp
next
  case (Cons p ps)
  from Cons.prems(1) obtain orphan where o: "orphan_at (vOrphan s) p = Some orphan"
    by (auto split: option.splits)
  note at = orphan_at_Some [OF o]
  then have mem: "Some orphan \<in> set (vOrphan s)" by (metis nth_mem)
  from Cons.prems(2) have q: "queue_ready E s" and ot: "orphans_tracked E s"
    and t: "template_in_order E s"
    by (simp_all add: select_inv_def)
  show ?case
  proof (cases "setDependsOn orphan = []")
    case True
    with Cons.prems(1) o have "release_dependers hash ps s = Inr s'" by simp
    from Cons.IH [OF this Cons.prems(2,3)] show ?thesis .
  next
    case False
    let ?o = "orphan\<lparr>setDependsOn := removeAll hash (setDependsOn orphan)\<rparr>"
    let ?s1 = "s\<lparr>vOrphan := (vOrphan s)[p := Some ?o]\<rparr>"
    let ?s2 = "?s1\<lparr>vecPriority := vecPriority ?s1 @ [(dPriority ?o, feeRate ?o, ptx ?o)]\<rparr>"
    from ot mem have "tracked E (selected s) orphan" by (simp add: orphans_tracked_def)
    from tracked_erase [OF this Cons.prems(3)] have tr: "tracked E (selected s) ?o" .
    have sel: "selected ?s1 = selected s" "selected ?s2 = selected s"
      by (simp_all add: selected_def template_vtx_def)
    have ot1: "orphans_tracked E ?s1" using ot tr by (rule orphans_tracked_update)
    from q have q1: "queue_ready E ?s1"
      by (simp add: queue_ready_def selected_def template_vtx_def)
    from t have t1: "template_in_order E ?s1"
      by (simp add: template_in_order_def selected_def template_vtx_def)
    from q1 ot1 t1 have inv1: "select_inv E ?s1" by (simp add: select_inv_def)
    show ?thesis
    proof (cases "removeAll hash (setDependsOn orphan) = []")
      case True
      with False Cons.prems(1) o have run: "release_dependers hash ps ?s2 = Inr s'"
        by (simp add: Let_def)
      from True have "setDependsOn ?o = []" by simp
      from tracked_empty_ready [OF tr this] have rd: "ready E (selected s) (ptx orphan)" by simp
      from q1 rd have q2: "queue_ready E ?s2"
        by (simp add: queue_ready_def selected_def template_vtx_def)
      from ot1 have ot2: "orphans_tracked E ?s2"
        by (simp add: orphans_tracked_def selected_def template_vtx_def)
      from t1 have t2: "template_in_order E ?s2"
        by (simp add: template_in_order_def selected_def template_vtx_def)
      from q2 ot2 t2 have inv2: "select_inv E ?s2" by (simp add: select_inv_def)
      from Cons.prems(3) sel have "hash \<in> GetHash E ` set (selected ?s2)" by simp
      from Cons.IH [OF run inv2 this] show ?thesis .
    next
      case nonempty: False
      with False Cons.prems(1) o have run: "release_dependers hash ps ?s1 = Inr s'"
        by (simp add: Let_def)
      from Cons.prems(3) sel have "hash \<in> GetHash E ` set (selected ?s1)" by simp
      from Cons.IH [OF run inv1 this] show ?thesis .
    qed
  qed
qed

text \<open>A round of the selection keeps the invariant.\<close>

lemma queue_front_in:
  "vecPriority s \<noteq> [] \<Longrightarrow> queue_front s \<in> set (vecPriority s)"
  using heap_front_in [of "TxPriorityCompare (fSortedByFee s)"]
  by (cases "vecPriority s") (simp_all add: queue_front_def)

lemma select_inv_round:
  assumes "vecPriority s \<noteq> []" and "select_round E nHeight s = Inr s'" and "select_inv E s"
  shows "select_inv E s'"
  using assms(1,2)
proof (cases rule: select_round_cases)
  case (skipped byFee)
  with select_inv_popped [OF assms(3)] show ?thesis by simp
next
  case (added byFee nTxFees nTxSigOps)
  let ?tx = "snd (snd (queue_front s))"
  let ?a = "add_to_block E nHeight ?tx (GetSerializeSize E ?tx) nTxFees nTxSigOps (popped byFee s)"
  from queue_front_in [OF assms(1)] assms(3)
  have "ready E (selected s) ?tx"
    by (simp add: select_inv_def queue_ready_def)
  then have tx: "ready E (selected (popped byFee s)) ?tx" by simp
  note a = select_inv_add_to_block [OF select_inv_popped [OF assms(3)] tx]
  from added(2) have "release_dependers (GetHash E ?tx) (mapDependers s (GetHash E ?tx)) ?a = Inr s'"
    by simp
  from select_inv_release [OF this a] show ?thesis .
qed

lemma select_loop_inv:
  assumes "select_loop E nHeight s = Inr s'" and "select_inv E s"
  shows "select_inv E s'"
  using assms
proof (induction E nHeight s rule: select_loop.induct)
  case (1 E nHeight s)
  show ?case
  proof (cases "vecPriority s = []")
    case True
    with "1.prems" show ?thesis by (simp add: select_loop.simps [of E nHeight s])
  next
    case False
    with "1.prems"(1) obtain s1 where
      r: "select_round E nHeight s = Inr s1" and run: "select_loop E nHeight s1 = Inr s'"
      by (auto simp: select_loop.simps [of E nHeight s] split: sum.splits)
    from select_inv_round [OF False r "1.prems"(2)] have "select_inv E s1" .
    from "1.IH" [OF False r run this] show ?thesis .
  qed
qed

subsection \<open>Collecting the pool establishes the invariant\<close>

text \<open>
  While the inputs of a pool transaction are scanned, the state differs from the state
  \<open>s0\<close> before the scan in the orphan store at most (and in \<open>mapDependers\<close>,
  which the invariant does not read).
\<close>

definition scan_frame :: "'v select_state \<Rightarrow> 'v select_state \<Rightarrow> bool" where
  "scan_frame s0 s \<longleftrightarrow>
     view s = view s0 \<and> vecPriority s = vecPriority s0
     \<and> pblocktemplate s = pblocktemplate s0 \<and> nFees s = nFees s0"

text \<open>The previous transactions, among some inputs, that a view does not have.\<close>

definition unseen :: "('v, 'e) std_env_scheme \<Rightarrow> 'v \<Rightarrow> CTxIn list \<Rightarrow> uint256 set" where
  "unseen E v ins =
     {outpoint_hash (prevout txin) | txin. txin \<in> set ins \<and> \<not> HaveCoins E v (outpoint_hash (prevout txin))}"

lemma unseen_simps [simp]:
  "unseen E v [] = {}"
  "unseen E v (ins @ [txin])
     = (if HaveCoins E v (outpoint_hash (prevout txin)) then unseen E v ins
        else insert (outpoint_hash (prevout txin)) (unseen E v ins))"
  by (auto simp: unseen_def)

lemma unseen_pool_parents: "unseen E (pcoinsTip E) (vin tx) = set (pool_parents E tx)"
  by (auto simp: unseen_def pool_parents_def)

text \<open>
  After the inputs \<open>scanned\<close>, with none missing: either the transaction has no
  orphan and all those inputs are in the view, or its orphan is the last entry of the
  store and its dependency set holds exactly the previous transactions not in the view.
\<close>

definition scan_ok ::
  "('v, 'e) std_env_scheme \<Rightarrow> CTransaction \<Rightarrow> CTxIn list \<Rightarrow> input_scan
     \<Rightarrow> 'v select_state \<Rightarrow> 'v select_state \<Rightarrow> bool"
where
  "scan_ok E tx scanned loc s0 s \<longleftrightarrow>
     scan_frame s0 s \<and> \<not> fMissingInputs loc
     \<and> (case porphan loc of
          None \<Rightarrow> vOrphan s = vOrphan s0 \<and> unseen E (view s0) scanned = {}
        | Some p \<Rightarrow>
            p = length (vOrphan s0)
            \<and> (\<exists>orphan. vOrphan s = vOrphan s0 @ [Some orphan] \<and> ptx orphan = tx
                  \<and> set (setDependsOn orphan) = unseen E (view s0) scanned))"

definition scan_dropped :: "'v select_state \<Rightarrow> 'v select_state \<Rightarrow> bool" where
  "scan_dropped s0 s \<longleftrightarrow>
     scan_frame s0 s \<and> (vOrphan s = vOrphan s0 \<or> vOrphan s = vOrphan s0 @ [None])"

lemma update_orphan_last [simp]:
  "update_orphan (length xs) f (xs @ [Some orphan]) = xs @ [Some (f orphan)]"
  by (simp add: update_orphan_def)

text \<open>The three things a step of the scan can do.\<close>

lemma scan_step_in_view:
  assumes "scan_ok E tx scanned loc s0 s"
    and "HaveCoins E (view s) (outpoint_hash (prevout txin))"
    and "porphan loc' = porphan loc" "fMissingInputs loc' = fMissingInputs loc"
  shows "scan_ok E tx (scanned @ [txin]) loc' s0 s"
  using assms by (auto simp: scan_ok_def scan_frame_def split: option.splits)

lemma scan_step_missing:
  assumes "scan_ok E tx scanned loc s0 s"
  shows "scan_dropped s0
           (case porphan loc of None \<Rightarrow> s | Some p \<Rightarrow> s\<lparr>vOrphan := (vOrphan s)[p := None]\<rparr>)"
  using assms by (auto simp: scan_ok_def scan_dropped_def scan_frame_def split: option.splits)

lemma scan_step_in_pool:
  assumes ok: "scan_ok E tx scanned loc s0 s"
    and nc: "\<not> HaveCoins E (view s) (outpoint_hash (prevout txin))"
    and p: "p = (case porphan loc of None \<Rightarrow> length (vOrphan s) | Some p \<Rightarrow> p)"
    and s1: "s1 = (case porphan loc of
                     None \<Rightarrow> s\<lparr>vOrphan := vOrphan s @ [Some (COrphan_new tx)]\<rparr>
                   | Some p \<Rightarrow> s)"
    and loc': "porphan loc' = Some p" "fMissingInputs loc' = fMissingInputs loc"
    and s2: "s2 = s1\<lparr>mapDependers := m\<rparr>"
    and s3: "s3 = s2\<lparr>vOrphan :=
                      update_orphan p
                        (\<lambda>orphan. orphan\<lparr>setDependsOn :=
                                     List.insert (outpoint_hash (prevout txin)) (setDependsOn orphan)\<rparr>)
                        (vOrphan s2)\<rparr>"
  shows "scan_ok E tx (scanned @ [txin]) loc' s0 s3"
proof (cases "porphan loc")
  case None
  with ok have v: "vOrphan s = vOrphan s0" and u: "unseen E (view s0) scanned = {}"
    and fr: "scan_frame s0 s" and nm: "\<not> fMissingInputs loc"
    by (simp_all add: scan_ok_def)
  from None p v have pp: "p = length (vOrphan s0)" by simp
  from None s1 s2 s3 v pp have st: "vOrphan s3 = vOrphan s0 @
      [Some ((COrphan_new tx)\<lparr>setDependsOn :=
          List.insert (outpoint_hash (prevout txin)) (setDependsOn (COrphan_new tx))\<rparr>)]"
    by simp
  from None s1 s2 s3 fr have fr3: "scan_frame s0 s3" by (simp add: scan_frame_def)
  from fr nc have nc0: "\<not> HaveCoins E (view s0) (outpoint_hash (prevout txin))"
    by (simp add: scan_frame_def)
  from st fr3 nm loc' pp u nc0 show ?thesis
    by (simp add: scan_ok_def COrphan_new_def)
next
  case (Some q)
  with ok obtain orphan where q: "q = length (vOrphan s0)"
    and v: "vOrphan s = vOrphan s0 @ [Some orphan]" and px: "ptx orphan = tx"
    and u: "set (setDependsOn orphan) = unseen E (view s0) scanned"
    and fr: "scan_frame s0 s" and nm: "\<not> fMissingInputs loc"
    by (auto simp: scan_ok_def)
  from Some p q have pp: "p = length (vOrphan s0)" by simp
  from Some s1 s2 s3 v pp have st: "vOrphan s3 = vOrphan s0 @
      [Some (orphan\<lparr>setDependsOn :=
          List.insert (outpoint_hash (prevout txin)) (setDependsOn orphan)\<rparr>)]"
    by simp
  from Some s1 s2 s3 fr have fr3: "scan_frame s0 s3" by (simp add: scan_frame_def)
  from fr nc have nc0: "\<not> HaveCoins E (view s0) (outpoint_hash (prevout txin))"
    by (simp add: scan_frame_def)
  from st fr3 nm loc' pp u px nc0 show ?thesis
    by (simp add: scan_ok_def)
qed

lemma scan_inputs_ok:
  assumes "scan_inputs E nHeight tx ins (loc, s) = Inr (loc', s')"
    and "scan_ok E tx scanned loc s0 s"
  shows "(fMissingInputs loc' \<and> scan_dropped s0 s') \<or> scan_ok E tx (scanned @ ins) loc' s0 s'"
  using assms
proof (induction ins arbitrary: scanned loc s)
  case Nil
  then show ?case by simp
next
  case (Cons txin rest)
  let ?h = "outpoint_hash (prevout txin)"
  show ?case
  proof (cases "HaveCoins E (view s) ?h")
    case True
    let ?nValueIn = "coins_nValue E (view s) (prevout txin)"
    let ?loc1 = "loc\<lparr>nTotalIn := nTotalIn loc + ?nValueIn\<rparr>"
    let ?loc2 = "?loc1\<lparr>dPriorityIn := dPriorityIn ?loc1
                   + real_of_int (sint ?nValueIn) * real_of_int (nHeight - coins_nHeight E (view s) ?h)\<rparr>"
    from True Cons.prems(1) have run: "scan_inputs E nHeight tx rest (?loc2, s) = Inr (loc', s')"
      by (simp add: Let_def)
    have "scan_ok E tx (scanned @ [txin]) ?loc2 s0 s"
      using Cons.prems(2) True by (rule scan_step_in_view) simp_all
    from Cons.IH [OF run this] show ?thesis by simp
  next
    case False
    show ?thesis
    proof (cases "?h \<in> fst ` set (mapTx E)")
      case inpool: False
      with False Cons.prems(1) have
        "loc' = loc\<lparr>fMissingInputs := True\<rparr>"
        "s' = (case porphan loc of None \<Rightarrow> s | Some p \<Rightarrow> s\<lparr>vOrphan := (vOrphan s)[p := None]\<rparr>)"
        by (simp_all add: Let_def split: if_splits)
      with scan_step_missing [OF Cons.prems(2)] show ?thesis by simp
    next
      case True
      let ?p = "case porphan loc of None \<Rightarrow> length (vOrphan s) | Some p \<Rightarrow> p"
      let ?s1 = "case porphan loc of
                   None \<Rightarrow> s\<lparr>vOrphan := vOrphan s @ [Some (COrphan_new tx)]\<rparr>
                 | Some p \<Rightarrow> s"
      let ?loc1 = "loc\<lparr>porphan := Some ?p\<rparr>"
      let ?s2 = "?s1\<lparr>mapDependers := (mapDependers ?s1)(?h := mapDependers ?s1 ?h @ [?p])\<rparr>"
      let ?s3 = "?s2\<lparr>vOrphan :=
                      update_orphan ?p
                        (\<lambda>orphan. orphan\<lparr>setDependsOn := List.insert ?h (setDependsOn orphan)\<rparr>)
                        (vOrphan ?s2)\<rparr>"
      let ?loc2 = "?loc1\<lparr>nTotalIn := nTotalIn ?loc1 + mempool_nValue E (prevout txin)\<rparr>"
      from True False Cons.prems(1)
      have run: "scan_inputs E nHeight tx rest (?loc2, ?s3) = Inr (loc', s')"
        by (simp add: Let_def)
      have "scan_ok E tx (scanned @ [txin]) ?loc2 s0 ?s3"
        by (rule scan_step_in_pool [OF Cons.prems(2) False refl refl _ _ refl refl]) simp_all
      from Cons.IH [OF run this] show ?thesis by simp
    qed
  qed
qed

text \<open>A round of the loop over the pool keeps the invariant and the view.\<close>

definition collect_inv :: "('v, 'e) std_env_scheme \<Rightarrow> 'v select_state \<Rightarrow> bool" where
  "collect_inv E s \<longleftrightarrow> select_inv E s \<and> view s = pcoinsTip E"

lemma select_inv_store:
  assumes "select_inv E s" and "scan_frame s s'"
    and "\<And>orphan. Some orphan \<in> set (vOrphan s') \<Longrightarrow> Some orphan \<notin> set (vOrphan s)
           \<Longrightarrow> tracked E (selected s) orphan"
  shows "select_inv E s'"
proof -
  from assms(2) have sel: "selected s' = selected s" "template_vtx s' = template_vtx s"
    by (simp_all add: scan_frame_def selected_def template_vtx_def)
  from assms(1) have q: "queue_ready E s" and o: "orphans_tracked E s" and t: "template_in_order E s"
    by (simp_all add: select_inv_def)
  from q assms(2) sel have "queue_ready E s'" by (simp add: queue_ready_def scan_frame_def)
  moreover from o assms(3) sel have "orphans_tracked E s'"
    unfolding orphans_tracked_def by metis
  moreover from t assms(2) sel have "template_in_order E s'"
    by (simp add: template_in_order_def scan_frame_def)
  ultimately show ?thesis by (simp add: select_inv_def)
qed

lemma collect_tx_inv:
  assumes run: "collect_tx E nHeight nLockTimeCutoff tx s = Inr s'"
    and inv: "collect_inv E s"
  shows "collect_inv E s'"
proof (cases "IsCoinBase tx \<or> \<not> IsFinalTx E tx nHeight nLockTimeCutoff")
  case True
  with run inv show ?thesis by (simp add: collect_tx_def)
next
  case False
  then have ncb: "\<not> IsCoinBase tx" by simp
  from inv have sinv: "select_inv E s" and view: "view s = pcoinsTip E"
    by (simp_all add: collect_inv_def)
  from False run obtain loc s1 where
    scan: "scan_inputs E nHeight tx (vin tx) (input_scan_start, s) = Inr (loc, s1)"
    by (auto simp: collect_tx_def split: sum.splits)
  have "scan_ok E tx [] input_scan_start s s"
    by (simp add: scan_ok_def scan_frame_def input_scan_start_def)
  from scan_inputs_ok [OF scan this]
  have res: "(fMissingInputs loc \<and> scan_dropped s s1) \<or> scan_ok E tx (vin tx) loc s s1"
    by simp
  show ?thesis
  proof (cases "fMissingInputs loc")
    case True
    with False run scan have s': "s' = s1" by (simp add: collect_tx_def Let_def)
    from True res have d: "scan_dropped s s1" by (auto simp: scan_ok_def)
    then have fr: "scan_frame s s1" by (simp add: scan_dropped_def)
    have "select_inv E s1"
      using sinv fr
    proof (rule select_inv_store)
      fix orphan
      assume "Some orphan \<in> set (vOrphan s1)" "Some orphan \<notin> set (vOrphan s)"
      with d show "tracked E (selected s) orphan" by (auto simp: scan_dropped_def)
    qed
    with fr view s' show ?thesis by (simp add: collect_inv_def scan_frame_def)
  next
    case nm: False
    with res have ok: "scan_ok E tx (vin tx) loc s s1" by simp
    then have fr: "scan_frame s s1" by (simp add: scan_ok_def)
    obtain dP nT where ad: "ApplyDeltas E (GetHash E tx)
        (ComputePriority E tx (dPriorityIn loc) (GetSerializeSize E tx),
         nTotalIn loc + GetJoinSplitValueIn E tx) = (dP, nT)"
      by (cases "ApplyDeltas E (GetHash E tx)
        (ComputePriority E tx (dPriorityIn loc) (GetSerializeSize E tx),
         nTotalIn loc + GetJoinSplitValueIn E tx)")
    let ?fr = "CFeeRate E (nT - GetValueOut E tx) (GetSerializeSize E tx)"
    show ?thesis
    proof (cases "porphan loc")
      case None
      with False nm run scan ad
      have s': "s' = s1\<lparr>vecPriority := vecPriority s1 @ [(dP, ?fr, tx)]\<rparr>"
        by (simp add: collect_tx_def Let_def)
      from None ok view have "unseen E (pcoinsTip E) (vin tx) = {}" and st: "vOrphan s1 = vOrphan s"
        by (simp_all add: scan_ok_def)
      with ncb have rd: "ready E (selected s) tx"
        by (simp add: ready_def unseen_pool_parents)
      from sinv have q: "queue_ready E s" and o: "orphans_tracked E s"
        and t: "template_in_order E s"
        by (simp_all add: select_inv_def)
      from fr have sel: "selected s' = selected s" "template_vtx s' = template_vtx s"
        by (simp_all add: s' scan_frame_def selected_def template_vtx_def)
      from q rd fr sel have "queue_ready E s'"
        by (simp add: queue_ready_def s' scan_frame_def)
      moreover from o st sel have "orphans_tracked E s'"
        by (simp add: orphans_tracked_def s')
      moreover from t fr sel have "template_in_order E s'"
        by (simp add: template_in_order_def s' scan_frame_def)
      ultimately have "select_inv E s'" by (simp add: select_inv_def)
      with fr view show ?thesis by (simp add: collect_inv_def s' scan_frame_def)
    next
      case (Some p)
      with False nm run scan ad
      have s': "s' = s1\<lparr>vOrphan :=
                  update_orphan p (\<lambda>orphan. orphan\<lparr>dPriority := dP, feeRate := ?fr\<rparr>) (vOrphan s1)\<rparr>"
        by (simp add: collect_tx_def Let_def)
      from Some ok view obtain orphan where p: "p = length (vOrphan s)"
        and st: "vOrphan s1 = vOrphan s @ [Some orphan]" and px: "ptx orphan = tx"
        and deps: "set (setDependsOn orphan) = unseen E (pcoinsTip E) (vin tx)"
        by (auto simp: scan_ok_def)
      let ?o = "orphan\<lparr>dPriority := dP, feeRate := ?fr\<rparr>"
      from s' st p have st': "vOrphan s' = vOrphan s @ [Some ?o]" by simp
      from px deps ncb have tr: "tracked E (selected s) ?o"
        by (simp add: tracked_def unseen_pool_parents)
      from fr have fr': "scan_frame s s'" by (simp add: s' scan_frame_def)
      have "select_inv E s'"
        using sinv fr'
      proof (rule select_inv_store)
        fix o'
        assume "Some o' \<in> set (vOrphan s')" "Some o' \<notin> set (vOrphan s)"
        with st' have "o' = ?o" by auto
        with tr show "tracked E (selected s) o'" by simp
      qed
      with fr' view show ?thesis by (simp add: collect_inv_def scan_frame_def)
    qed
  qed
qed

lemma collect_pool_inv:
  "collect_pool E nHeight nLockTimeCutoff pool s = Inr s' \<Longrightarrow> collect_inv E s
     \<Longrightarrow> collect_inv E s'"
proof (induction pool arbitrary: s)
  case Nil
  then show ?case by simp
next
  case (Cons mi later)
  from Cons.prems(1) obtain s1 where
    c: "collect_tx E nHeight nLockTimeCutoff (snd mi) s = Inr s1" and
    r: "collect_pool E nHeight nLockTimeCutoff later s1 = Inr s'"
    by (auto split: sum.splits)
  from collect_tx_inv [OF c Cons.prems(2)] have "collect_inv E s1" .
  from Cons.IH [OF r this] show ?case .
qed

subsection \<open>The template of the standard builder\<close>

lemma vtx_UpdateTime [simp]: "vtx (UpdateTime E pblock pindexPrev) = vtx pblock"
  by (simp add: UpdateTime_def Let_def)

lemma finish_template_vtx:
  "vtx (block (finish_template E scriptPubKeyIn nHeight s))
     = (template_vtx s)[0 := miner_txNew E scriptPubKeyIn nHeight (nFees s)]"
  by (simp add: finish_template_def Let_def template_vtx_def)

lemma finish_template_vTxFees:
  "vTxFees (finish_template E scriptPubKeyIn nHeight s)
     = (vTxFees (pblocktemplate s))[0 := - nFees s]"
  by (simp add: finish_template_def Let_def)

lemma IsCoinBase_miner_txNew: "IsCoinBase (miner_txNew E scriptPubKeyIn nHeight fees)"
  by (simp add: IsCoinBase_def miner_txNew_def Let_def IsNull_def SetNull_def)

lemma collect_inv_initial: "collect_inv E (select_initial_state E)"
  by (simp add: collect_inv_def select_inv_initial) (simp add: select_initial_state_def Let_def)

text \<open>
  A template that \<^verbatim>\<open>CreateNewBlock\<close> returns is the miner's coinbase followed by
  the transactions selected, in the order of their selection; the fee entries are the
  negated total and the fees of the transactions selected.
\<close>

lemma CreateNewBlock_Inr:
  assumes "CreateNewBlock E scriptPubKeyIn = Inr tmpl"
  obtains txs fees where
    "vtx (block tmpl)
       = miner_txNew E scriptPubKeyIn (index_nHeight (chainActive_Tip E) + 1) (sum_list fees) # txs"
    "vTxFees tmpl = - sum_list fees # fees"
    "parents_first E txs"
    "\<And>tx. tx \<in> set txs \<Longrightarrow> \<not> IsCoinBase tx"
proof -
  let ?h = "index_nHeight (chainActive_Tip E) + 1"
  from assms obtain cutoff s0 s where
    c: "collect_pool E ?h cutoff (mapTx E) (select_initial_state E) = Inr s0" and
    l: "select_loop E ?h s0 = Inr s" and
    t: "tmpl = finish_template E scriptPubKeyIn ?h s"
    by (auto simp: CreateNewBlock_def Let_def split: sum.splits if_splits)
  from collect_pool_inv [OF c collect_inv_initial] have "select_inv E s0"
    by (simp add: collect_inv_def)
  from select_loop_inv [OF l this] have inv: "template_in_order E s"
    by (simp add: select_inv_def)
  then obtain d where v: "template_vtx s = d # selected s"
    by (cases "template_vtx s") (simp_all add: template_in_order_def selected_def)
  from inv v obtain f fs where f: "vTxFees (pblocktemplate s) = f # fs"
    by (cases "vTxFees (pblocktemplate s)") (simp_all add: template_in_order_def)
  from inv have n: "nFees s = sum_list (tl (vTxFees (pblocktemplate s)))"
    by (simp add: template_in_order_def)
  have "vtx (block tmpl)
          = miner_txNew E scriptPubKeyIn ?h (sum_list (tl (vTxFees (pblocktemplate s)))) # selected s"
    using v n by (simp add: t finish_template_vtx)
  moreover have "vTxFees tmpl
          = - sum_list (tl (vTxFees (pblocktemplate s))) # tl (vTxFees (pblocktemplate s))"
    using f n by (simp add: t finish_template_vTxFees)
  moreover from inv have "parents_first E (selected s)"
    by (simp add: template_in_order_def)
  moreover from inv have "\<And>tx. tx \<in> set (selected s) \<Longrightarrow> \<not> IsCoinBase tx"
    by (simp add: template_in_order_def)
  ultimately show ?thesis by (rule that)
qed

text \<open>
  In a template of the standard builder the fee entry at index 0 is the negated sum of
  the others (in 64-bit arithmetic).
\<close>

lemma CreateNewBlock_fee_entry_zero:
  assumes "CreateNewBlock E scriptPubKeyIn = Inr tmpl"
  shows "vTxFees tmpl \<noteq> [] \<and> hd (vTxFees tmpl) = - sum_list (tl (vTxFees tmpl))"
  using assms by (rule CreateNewBlock_Inr) simp

text \<open>What the queue gains when the dependers of a transaction are released.\<close>

lemma release_dependers_keeps_empty:
  assumes "release_dependers hash ps s = Inr s'"
    and "Some orphan \<in> set (vOrphan s)" and "setDependsOn orphan = []"
  shows "Some orphan \<in> set (vOrphan s')"
  using assms
proof (induction ps arbitrary: s)
  case Nil
  then show ?case by simp
next
  case (Cons p ps)
  from Cons.prems(1) obtain o' where o: "orphan_at (vOrphan s) p = Some o'"
    by (auto split: option.splits)
  note at = orphan_at_Some [OF o]
  show ?case
  proof (cases "setDependsOn o' = []")
    case True
    with Cons.prems(1) o have "release_dependers hash ps s = Inr s'" by simp
    from Cons.IH [OF this Cons.prems(2,3)] show ?thesis .
  next
    case False
    let ?o = "o'\<lparr>setDependsOn := removeAll hash (setDependsOn o')\<rparr>"
    let ?s1 = "s\<lparr>vOrphan := (vOrphan s)[p := Some ?o]\<rparr>"
    let ?s2 = "?s1\<lparr>vecPriority := vecPriority ?s1 @ [(dPriority ?o, feeRate ?o, ptx ?o)]\<rparr>"
    from False Cons.prems(3) have ne: "o' \<noteq> orphan" by auto
    from Cons.prems(2) obtain i where i: "i < length (vOrphan s)" "vOrphan s ! i = Some orphan"
      by (auto simp: in_set_conv_nth)
    with at ne have "i \<noteq> p" by auto
    with i have "((vOrphan s)[p := Some ?o]) ! i = Some orphan"
      "i < length ((vOrphan s)[p := Some ?o])"
      by simp_all
    then have "Some orphan \<in> set ((vOrphan s)[p := Some ?o])"
      by (metis nth_mem)
    then have in1: "Some orphan \<in> set (vOrphan ?s1)" and in2: "Some orphan \<in> set (vOrphan ?s2)"
      by simp_all
    show ?thesis
    proof (cases "removeAll hash (setDependsOn o') = []")
      case True
      with False Cons.prems(1) o have "release_dependers hash ps ?s2 = Inr s'"
        by (simp add: Let_def)
      from Cons.IH [OF this in2 Cons.prems(3)] show ?thesis .
    next
      case nonempty: False
      with False Cons.prems(1) o have "release_dependers hash ps ?s1 = Inr s'"
        by (simp add: Let_def)
      from Cons.IH [OF this in1 Cons.prems(3)] show ?thesis .
    qed
  qed
qed

definition released :: "COrphan option list \<Rightarrow> TxPriority \<Rightarrow> bool" where
  "released store e \<longleftrightarrow>
     (\<exists>orphan. Some orphan \<in> set store \<and> setDependsOn orphan = []
        \<and> e = (dPriority orphan, feeRate orphan, ptx orphan))"

lemma release_dependers_queue:
  assumes "release_dependers hash ps s = Inr s'"
  shows "\<exists>new. vecPriority s' = vecPriority s @ new \<and> (\<forall>e \<in> set new. released (vOrphan s') e)"
  using assms
proof (induction ps arbitrary: s)
  case Nil
  then show ?case by simp
next
  case (Cons p ps)
  from Cons.prems(1) obtain o' where o: "orphan_at (vOrphan s) p = Some o'"
    by (auto split: option.splits)
  note at = orphan_at_Some [OF o]
  show ?case
  proof (cases "setDependsOn o' = []")
    case True
    with Cons.prems(1) o have "release_dependers hash ps s = Inr s'" by simp
    from Cons.IH [OF this] show ?thesis .
  next
    case False
    let ?o = "o'\<lparr>setDependsOn := removeAll hash (setDependsOn o')\<rparr>"
    let ?s1 = "s\<lparr>vOrphan := (vOrphan s)[p := Some ?o]\<rparr>"
    let ?s2 = "?s1\<lparr>vecPriority := vecPriority ?s1 @ [(dPriority ?o, feeRate ?o, ptx ?o)]\<rparr>"
    show ?thesis
    proof (cases "removeAll hash (setDependsOn o') = []")
      case True
      with False Cons.prems(1) o have run: "release_dependers hash ps ?s2 = Inr s'"
        by (simp add: Let_def)
      from Cons.IH [OF run] obtain new where
        new: "vecPriority s' = vecPriority ?s2 @ new" "\<forall>e \<in> set new. released (vOrphan s') e"
        by blast
      from at have "Some ?o \<in> set (vOrphan ?s2)" by (simp add: set_update_memI)
      from release_dependers_keeps_empty [OF run this] True
      have "released (vOrphan s') (dPriority ?o, feeRate ?o, ptx ?o)"
        unfolding released_def by (intro exI [of _ ?o]) simp
      with new have
        "vecPriority s' = vecPriority s @ ((dPriority ?o, feeRate ?o, ptx ?o) # new)
         \<and> (\<forall>e \<in> set ((dPriority ?o, feeRate ?o, ptx ?o) # new). released (vOrphan s') e)"
        by simp
      then show ?thesis by blast
    next
      case nonempty: False
      with False Cons.prems(1) o have "release_dependers hash ps ?s1 = Inr s'"
        by (simp add: Let_def)
      from Cons.IH [OF this] show ?thesis by simp
    qed
  qed
qed

text \<open>The queue after the pool was collected holds transactions without pool parents.\<close>

lemma collected_queue:
  assumes "collect_pool E nHeight nLockTimeCutoff (mapTx E) (select_initial_state E) = Inr s"
  shows "\<forall>e \<in> set (vecPriority s). pool_parents E (snd (snd e)) = []"
proof -
  have frame: "collect_tx E nHeight nLockTimeCutoff tx s0 = Inr s1 \<Longrightarrow>
      template_vtx s1 = template_vtx s0" for tx s0 s1
  proof -
    assume run: "collect_tx E nHeight nLockTimeCutoff tx s0 = Inr s1"
    show "template_vtx s1 = template_vtx s0"
    proof (cases "IsCoinBase tx \<or> \<not> IsFinalTx E tx nHeight nLockTimeCutoff")
      case True
      with run show ?thesis by (simp add: collect_tx_def)
    next
      case False
      with run obtain loc s2 where
        scan: "scan_inputs E nHeight tx (vin tx) (input_scan_start, s0) = Inr (loc, s2)"
        by (auto simp: collect_tx_def split: sum.splits)
      have "scan_ok E tx [] input_scan_start s0 s0"
        by (simp add: scan_ok_def scan_frame_def input_scan_start_def)
      from scan_inputs_ok [OF scan this] have fr: "scan_frame s0 s2"
        by (auto simp: scan_ok_def scan_dropped_def)
      from False run scan have "pblocktemplate s1 = pblocktemplate s2"
        by (auto simp: collect_tx_def Let_def split: if_splits option.splits prod.splits)
      with fr show ?thesis by (simp add: template_vtx_def scan_frame_def)
    qed
  qed
  have pool: "collect_pool E nHeight nLockTimeCutoff pool s0 = Inr s1 \<Longrightarrow>
      template_vtx s1 = template_vtx s0" for pool s0 s1
  proof (induction pool arbitrary: s0)
    case Nil
    then show ?case by simp
  next
    case (Cons mi later)
    from Cons.prems obtain s2 where
      c: "collect_tx E nHeight nLockTimeCutoff (snd mi) s0 = Inr s2" and
      r: "collect_pool E nHeight nLockTimeCutoff later s2 = Inr s1"
      by (auto split: sum.splits)
    from Cons.IH [OF r] frame [OF c] show ?case by simp
  qed
  from pool [OF assms] have "selected s = []"
    by (simp add: selected_def template_vtx_def select_initial_state_def Let_def)
  moreover from collect_pool_inv [OF assms collect_inv_initial] have "queue_ready E s"
    by (simp add: collect_inv_def select_inv_def)
  ultimately show ?thesis by (simp add: queue_ready_def ready_def)
qed

subsection \<open>A sample environment for the standard builder\<close>

text \<open>
  The coins view is the list of the ids of the transactions whose outputs it holds. A
  sample transaction has one input, which spends output 0 of \<open>parent\<close>, and one
  output; its id is its lock time. Every input is worth 5000, the tip is at height 199,
  and nothing is free of charge.
\<close>

definition demo_tx :: "uint256 \<Rightarrow> 32 word \<Rightarrow> CAmount \<Rightarrow> CTransaction" where
  "demo_tx parent lock v =
     CTransaction_default
       \<lparr>vin := [\<lparr>prevout = \<lparr>outpoint_hash = parent, outpoint_n = 0\<rparr>,
                 scriptSig = [], nSequence = - 1\<rparr>],
        vout := [\<lparr>nValue = v, scriptPubKey = []\<rparr>],
        nLockTime := lock\<rparr>"

definition demo_GetHash :: "CTransaction \<Rightarrow> uint256" where
  "demo_GetHash tx = ucast (nLockTime tx)"

definition demo_std_env :: "(uint256 \<times> CTransaction) list \<Rightarrow> uint256 list std_env" where
  "demo_std_env pool =
     \<lparr>MAX_BLOCK_SIZE = 2000000, MAX_BLOCK_SIGOPS = 20000,
      GetSerializeSize = demo_GetSerializeSize,
      GetLegacySigOpCount = demo_GetLegacySigOpCount,
      push_int64 = demo_push_int, push_CScriptNum = demo_push_int,
      push_bytes = demo_push_bytes, OP_0 = 0,
      GetRandHash = 12345678901234567890, GetAdjustedTime = 1500000000,
      fPowAllowMinDifficultyBlocks = False,
      GetNextWorkRequired = (\<lambda>prev hdr. 520617983),
      ComputeBlockVersion = (\<lambda>prev. 4),
      TestBlockValidity = (\<lambda>blk prev fork. True),
      chainActive_Tip = demo_tip 1499999000,
      pcoinsTip = [1, 2],
      mapTx = pool,
      HaveCoins = (\<lambda>v h. h \<in> set v),
      coins_nValue = (\<lambda>v out. 5000),
      coins_nHeight = (\<lambda>v h. 100),
      mempool_nValue = (\<lambda>out. 5000),
      GetJoinSplitValueIn = (\<lambda>tx. 0),
      ComputePriority = (\<lambda>tx p size. p),
      ApplyDeltas = (\<lambda>h x. x),
      CFeeRate = (\<lambda>fee size. sint fee),
      minRelayTxFee = 100,
      AllowFree = (\<lambda>p. False),
      GetHash = demo_GetHash,
      GetValueOut = (\<lambda>tx. sum_list (map nValue (vout tx))),
      IsFinalTx = (\<lambda>tx h t. True),
      HaveInputs = (\<lambda>v tx. \<forall>i \<in> set (vin tx). outpoint_hash (prevout i) \<in> set v),
      GetValueIn = (\<lambda>v tx. 5000 * of_nat (length (vin tx))),
      GetP2SHSigOpCount = (\<lambda>tx v. 0),
      ContextualCheckInputs = (\<lambda>tx v. True),
      UpdateCoins = (\<lambda>tx v h. demo_GetHash tx # v),
      GetBlockSubsidy = (\<lambda>h. 1250000000),
      arg_blockmaxsize = 2000000, arg_blockprioritysize = 1000000, arg_blockminsize = 0,
      MineBlocksOnDemand = False, arg_blockversion = (\<lambda>v. v),
      locktime_median_time_past = True, fDebug = False,
      COINBASE_FLAGS = [], BuildMerkleTree = (\<lambda>blk. 0)\<rparr>"

text \<open>
  A pool of two transactions, the child listed before its parent: transaction 11 spends
  transaction 10, which is in the pool, and transaction 10 spends transaction 1, which
  is in the chain.
\<close>

definition demo_pool :: "(uint256 \<times> CTransaction) list" where
  "demo_pool = [(11, demo_tx 10 11 3000), (10, demo_tx 1 10 4000)]"

definition std_vtx_of :: "error + CBlockTemplate \<Rightarrow> CTransaction list" where
  "std_vtx_of r = (case r of Inl e \<Rightarrow> [] | Inr tmpl \<Rightarrow> vtx (block tmpl))"

lemmas std_eval =
  CreateNewBlock_def select_initial_state_def collect_tx_def select_loop.simps
  select_round_def skip_early_def switch_to_fee_def check_inputs_def add_to_block_def
  TxPriorityCompare_def orphan_at_def update_orphan_def COrphan_new_def
  input_scan_start_def finish_template_def miner_txNew_def UpdateTime_def std_max_def
  nBlockMaxSize_def nBlockPrioritySize_def nBlockMinSize_def fork_nBlockMaxSize_def
  IsCoinBase_def IsNull_def SetNull_def randomise_nonce_def
  demo_std_env_def demo_tip_def demo_tx_def demo_GetHash_def demo_pool_def
  demo_GetSerializeSize_def demo_GetLegacySigOpCount_def demo_push_int_def
  demo_push_bytes_def CTransaction_default_def CTxIn_default_def CTxOut_default_def
  CBlock_default_def std_vtx_of_def Let_def

lemma demo_pool_run:
  "map nLockTime (std_vtx_of (CreateNewBlock (demo_std_env demo_pool) [81])) = [0, 10, 11]"
  by (simp add: std_eval)

section \<open>The claims about whole templates\<close>

subsection \<open>C8: pool parents come first\<close>

text \<open>
  C8. In a template that \<^verbatim>\<open>CreateNewBlock\<close> returns, every transaction at an index
  \<open>i > 0\<close> has each of its pool parents (the previous transactions of its inputs
  that the chain's coins view does not hold) at an index \<open>j\<close> with \<open>0 < j < i\<close>.
  The queue is filled in two places only. When the pool is collected, the transactions
  put on the queue are those without pool parents. When a transaction is added to the
  block and its dependers are released, the queue gains only transactions of orphans
  whose dependency set is empty.
\<close>

theorem pool_parents_come_first:
  "(CreateNewBlock E scriptPubKeyIn = Inr tmpl \<longrightarrow>
      (\<forall>i. 0 < i \<and> i < length (vtx (block tmpl)) \<longrightarrow>
         (\<forall>h \<in> set (pool_parents E (vtx (block tmpl) ! i)).
            \<exists>j. 0 < j \<and> j < i \<and> GetHash E (vtx (block tmpl) ! j) = h)))
   \<and> (collect_pool E nHeight nLockTimeCutoff (mapTx E) (select_initial_state E) = Inr s \<longrightarrow>
        (\<forall>e \<in> set (vecPriority s). pool_parents E (snd (snd e)) = []))
   \<and> (release_dependers hash ps s1 = Inr s2 \<longrightarrow>
        (\<exists>new. vecPriority s2 = vecPriority s1 @ new
           \<and> (\<forall>e \<in> set new. released (vOrphan s2) e)))"
proof (intro conjI impI allI ballI)
  fix i h
  assume r: "CreateNewBlock E scriptPubKeyIn = Inr tmpl"
    and i: "0 < i \<and> i < length (vtx (block tmpl))"
    and h: "h \<in> set (pool_parents E (vtx (block tmpl) ! i))"
  from r obtain txs fees where
    v: "vtx (block tmpl)
          = miner_txNew E scriptPubKeyIn (index_nHeight (chainActive_Tip E) + 1) (sum_list fees) # txs"
    and pf: "parents_first E txs"
    by (rule CreateNewBlock_Inr)
  from i obtain k where k: "i = Suc k" by (cases i) auto
  with i v h have "k < length txs" "h \<in> set (pool_parents E (txs ! k))" by simp_all
  with pf obtain j where j: "j < k" "GetHash E (txs ! j) = h"
    unfolding parents_first_def by blast
  with k v have "0 < Suc j \<and> Suc j < i \<and> GetHash E (vtx (block tmpl) ! Suc j) = h" by simp
  then show "\<exists>j. 0 < j \<and> j < i \<and> GetHash E (vtx (block tmpl) ! j) = h" by blast
next
  fix e
  assume "collect_pool E nHeight nLockTimeCutoff (mapTx E) (select_initial_state E) = Inr s"
    and "e \<in> set (vecPriority s)"
  with collected_queue show "pool_parents E (snd (snd e)) = []" by blast
next
  assume "release_dependers hash ps s1 = Inr s2"
  then show "\<exists>new. vecPriority s2 = vecPriority s1 @ new
           \<and> (\<forall>e \<in> set new. released (vOrphan s2) e)"
    by (rule release_dependers_queue)
qed

text \<open>
  The theorem in the sample environment with the pool \<open>demo_pool\<close>. The template
  holds the miner's coinbase, transaction 10 and transaction 11, in that order, though
  the pool lists 11 first: 11 has the pool parent 10. After the collection the queue
  holds transaction 10 alone, and the release of the dependers of 10 puts 11 behind it.
\<close>

theorem pool_parents_come_first_witness:
  "(\<exists>tmpl. CreateNewBlock (demo_std_env demo_pool) [81] = Inr tmpl
       \<and> map nLockTime (vtx (block tmpl)) = [0, 10, 11]
       \<and> pool_parents (demo_std_env demo_pool) (vtx (block tmpl) ! 2) = [10]
       \<and> (\<exists>j. 0 < j \<and> j < 2 \<and> GetHash (demo_std_env demo_pool) (vtx (block tmpl) ! j) = 10))
   \<and> (\<exists>s. collect_pool (demo_std_env demo_pool) 200 0 (mapTx (demo_std_env demo_pool))
              (select_initial_state (demo_std_env demo_pool)) = Inr s
          \<and> map (nLockTime \<circ> snd \<circ> snd) (vecPriority s) = [10]
          \<and> (\<forall>e \<in> set (vecPriority s). pool_parents (demo_std_env demo_pool) (snd (snd e)) = [])
          \<and> (\<exists>s2. release_dependers 10 (mapDependers s 10) s = Inr s2
                 \<and> map (nLockTime \<circ> snd \<circ> snd) (vecPriority s2) = [10, 11]
                 \<and> (\<exists>new. vecPriority s2 = vecPriority s @ new
                        \<and> (\<forall>e \<in> set new. released (vOrphan s2) e))))"
proof -
  let ?E = "demo_std_env demo_pool"
  define tmpl where "tmpl = projr (CreateNewBlock ?E [81])"
  define s where "s = projr (collect_pool ?E 200 0 (mapTx ?E) (select_initial_state ?E))"
  define s2 where "s2 = projr (release_dependers 10 (mapDependers s 10) s)"
  have r: "CreateNewBlock ?E [81] = Inr tmpl"
    unfolding tmpl_def by (simp add: std_eval)
  have v: "map nLockTime (vtx (block tmpl)) = [0, 10, 11]"
    unfolding tmpl_def by (simp add: std_eval)
  have p: "pool_parents ?E (vtx (block tmpl) ! 2) = [10]"
    unfolding tmpl_def by (simp add: std_eval pool_parents_def)
  have c: "collect_pool ?E 200 0 (mapTx ?E) (select_initial_state ?E) = Inr s"
    unfolding s_def by (simp add: std_eval)
  have q: "map (nLockTime \<circ> snd \<circ> snd) (vecPriority s) = [10]"
    unfolding s_def by (simp add: std_eval)
  have d: "release_dependers 10 (mapDependers s 10) s = Inr s2"
    unfolding s2_def s_def by (simp add: std_eval)
  have q2: "map (nLockTime \<circ> snd \<circ> snd) (vecPriority s2) = [10, 11]"
    unfolding s2_def s_def by (simp add: std_eval)
  note inst = pool_parents_come_first
    [of ?E "[81]" tmpl 200 0 s 10 "mapDependers s 10" s s2]
  from inst r p have 1: "\<exists>j. 0 < j \<and> j < 2 \<and> GetHash ?E (vtx (block tmpl) ! j) = 10"
    using v by (auto dest: arg_cong [where f = length])
  from inst c have 2: "\<forall>e \<in> set (vecPriority s). pool_parents ?E (snd (snd e)) = []"
    by blast
  from inst d have 3: "\<exists>new. vecPriority s2 = vecPriority s @ new
      \<and> (\<forall>e \<in> set new. released (vOrphan s2) e)"
    by blast
  have a: "\<exists>tmpl. CreateNewBlock ?E [81] = Inr tmpl
       \<and> map nLockTime (vtx (block tmpl)) = [0, 10, 11]
       \<and> pool_parents ?E (vtx (block tmpl) ! 2) = [10]
       \<and> (\<exists>j. 0 < j \<and> j < 2 \<and> GetHash ?E (vtx (block tmpl) ! j) = 10)"
    by (rule exI [of _ tmpl]) (intro conjI r v p 1)
  have in2: "\<exists>s2. release_dependers 10 (mapDependers s 10) s = Inr s2
      \<and> map (nLockTime \<circ> snd \<circ> snd) (vecPriority s2) = [10, 11]
      \<and> (\<exists>new. vecPriority s2 = vecPriority s @ new
             \<and> (\<forall>e \<in> set new. released (vOrphan s2) e))"
    by (rule exI [of _ s2]) (intro conjI d q2 3)
  have b: "\<exists>s. collect_pool ?E 200 0 (mapTx ?E) (select_initial_state ?E) = Inr s
      \<and> map (nLockTime \<circ> snd \<circ> snd) (vecPriority s) = [10]
      \<and> (\<forall>e \<in> set (vecPriority s). pool_parents ?E (snd (snd e)) = [])
      \<and> (\<exists>s2. release_dependers 10 (mapDependers s 10) s = Inr s2
             \<and> map (nLockTime \<circ> snd \<circ> snd) (vecPriority s2) = [10, 11]
             \<and> (\<exists>new. vecPriority s2 = vecPriority s @ new
                    \<and> (\<forall>e \<in> set new. released (vOrphan s2) e)))"
    by (rule exI [of _ s]) (intro conjI c q 2 in2)
  from a b show ?thesis by (rule conjI)
qed

subsection \<open>C1: which transactions of a template are coinbases\<close>

text \<open>
  What the outer fork builder returns is the template of a run of the inner builder,
  with the header completed.
\<close>

lemma CreateNewForkBlock_Inr:
  "CreateNewForkBlock E tipHeight tips = Some (Inr tmpl) \<Longrightarrow>
     \<exists>nHeight st. CreateNewForkBlock_at E nHeight = Inr st \<and> vtx (block tmpl) = template_vtx st"
proof (induction tips arbitrary: tipHeight)
  case Nil
  then show ?case by simp
next
  case (Cons pindexPrev later)
  show ?case
  proof (cases "index_nHeight pindexPrev \<noteq> tipHeight")
    case True
    with Cons.prems
    have "CreateNewForkBlock E (index_nHeight pindexPrev) later = Some (Inr tmpl)"
      by (simp add: Let_def split: sum.splits error.splits)
    then show ?thesis by (rule Cons.IH)
  next
    case False
    with Cons.prems obtain st where
      "CreateNewForkBlock_at E (tipHeight + 1) = Inr st"
      "vtx (block tmpl) = template_vtx st"
      by (auto simp: Let_def template_vtx_def split: sum.splits error.splits if_splits)
    then show ?thesis by blast
  qed
qed

lemma fork_template_all_coinbase:
  assumes "CreateNewForkBlock_at E nHeight = Inr st"
  shows "template_vtx st \<noteq> [] \<and> (\<forall>tx \<in> set (template_vtx st). IsCoinBase tx)"
proof (cases "nHeight = ZUtxoMiningStartBlock E")
  case False
  from assms False obtain txs where
    v: "template_vtx st = dummy_txCoinbase E nHeight # txs" and
    t: "\<forall>i < length txs. \<exists>amount pks. txs ! i = transparent_txNew E nHeight i amount pks"
    by (rule fork_template_transparent) blast
  have "IsCoinBase tx" if "tx \<in> set txs" for tx
  proof -
    from that obtain i where "i < length txs" "txs ! i = tx" by (auto simp: in_set_conv_nth)
    with t show ?thesis by (auto simp: IsCoinBase_transparent_txNew)
  qed
  with v show ?thesis by (auto simp: IsCoinBase_dummy_txCoinbase)
next
  case True
  from assms True obtain txs bytes where
    b: "utxo_files E nHeight = Some bytes" and
    v: "template_vtx st = dummy_txCoinbase E nHeight # txs" and
    t: "\<forall>i < length txs.
          \<exists>raw txNew. decoderawtransaction2 E raw = Some txNew \<and> txs ! i = shielded_txM txNew"
    by (rule fork_template_shielded) blast
  have "IsCoinBase tx" if "tx \<in> set txs" for tx
  proof -
    from that obtain i where "i < length txs" "txs ! i = tx" by (auto simp: in_set_conv_nth)
    with t show ?thesis by (auto simp: IsCoinBase_shielded_txM)
  qed
  with v show ?thesis by (auto simp: IsCoinBase_dummy_txCoinbase)
qed

lemma list3_cases:
  obtains "xs = []" | a where "xs = [a]" | a b where "xs = [a, b]"
  | a b c where "xs = [a, b, c]" | a b c d ys where "xs = a # b # c # d # ys"
proof (cases xs)
  case Nil
  then show ?thesis by (rule that(1))
next
  case (Cons a as)
  note 1 = this
  show ?thesis
  proof (cases as)
    case Nil
    with 1 show ?thesis by (intro that(2)) simp
  next
    case (Cons b bs)
    note 2 = this
    show ?thesis
    proof (cases bs)
      case Nil
      with 1 2 show ?thesis by (intro that(3)) simp
    next
      case (Cons c cs)
      note 3 = this
      show ?thesis
      proof (cases cs)
        case Nil
        with 1 2 3 show ?thesis by (intro that(4)) simp
      next
        case (Cons d ds)
        with 1 2 3 show ?thesis by (intro that(5)) simp
      qed
    qed
  qed
qed

text \<open>
  C1, as the spec states it, fails in fork mode: the transactions that the fork builder
  puts behind the dummy coinbase are coinbases themselves. The template built at height
  200 from \<open>demo_utxo_100\<close> has two transactions, and the one at index 1 is a coinbase.
\<close>

theorem fork_coinbase_at_index_one_counterexample:
  "length (vtx_of (CreateNewForkBlock_at (demo_fork_env 3 demo_utxo_100) 200)) = 2
   \<and> IsCoinBase (vtx_of (CreateNewForkBlock_at (demo_fork_env 3 demo_utxo_100) 200) ! 1)"
  by (simp add: fork_eval demo_utxo_100_def IsCoinBase_def IsNull_def)

text \<open>
  C1, amended. In a template returned by \<^verbatim>\<open>CreateNewBlock\<close> the transaction at
  index 0 is a coinbase and no transaction at an index \<open>i > 0\<close> is one. A template
  returned by the fork builder, inner or outer, is not empty and every transaction in
  it is a coinbase: the dummy coinbase at index 0 and the synthetic coinbases behind it.
\<close>

theorem template_coinbases:
  "(CreateNewBlock E scriptPubKeyIn = Inr tmpl \<longrightarrow>
      vtx (block tmpl) \<noteq> [] \<and> IsCoinBase (vtx (block tmpl) ! 0)
      \<and> (\<forall>i. 0 < i \<and> i < length (vtx (block tmpl)) \<longrightarrow> \<not> IsCoinBase (vtx (block tmpl) ! i)))
   \<and> (CreateNewForkBlock_at F nHeight = Inr st \<longrightarrow>
        template_vtx st \<noteq> [] \<and> (\<forall>tx \<in> set (template_vtx st). IsCoinBase tx))
   \<and> (CreateNewForkBlock F tipHeight tips = Some (Inr ftmpl) \<longrightarrow>
        vtx (block ftmpl) \<noteq> [] \<and> (\<forall>tx \<in> set (vtx (block ftmpl)). IsCoinBase tx))"
proof (intro conjI impI)
  assume r: "CreateNewBlock E scriptPubKeyIn = Inr tmpl"
  from r obtain txs fees where
    v: "vtx (block tmpl)
          = miner_txNew E scriptPubKeyIn (index_nHeight (chainActive_Tip E) + 1) (sum_list fees) # txs"
    and n: "\<forall>tx \<in> set txs. \<not> IsCoinBase tx"
    by (rule CreateNewBlock_Inr) blast
  from v show "vtx (block tmpl) \<noteq> []" by simp
  from v show "IsCoinBase (vtx (block tmpl) ! 0)" by (simp add: IsCoinBase_miner_txNew)
  show "\<forall>i. 0 < i \<and> i < length (vtx (block tmpl)) \<longrightarrow> \<not> IsCoinBase (vtx (block tmpl) ! i)"
  proof (intro allI impI)
    fix i
    assume i: "0 < i \<and> i < length (vtx (block tmpl))"
    then obtain k where "i = Suc k" by (cases i) auto
    with i v have "vtx (block tmpl) ! i \<in> set txs" by simp
    with n show "\<not> IsCoinBase (vtx (block tmpl) ! i)" by blast
  qed
next
  assume r: "CreateNewForkBlock_at F nHeight = Inr st"
  from fork_template_all_coinbase [OF r]
  show "template_vtx st \<noteq> []" and "\<forall>tx \<in> set (template_vtx st). IsCoinBase tx"
    by simp_all
next
  assume "CreateNewForkBlock F tipHeight tips = Some (Inr ftmpl)"
  from CreateNewForkBlock_Inr [OF this] obtain h st' where
    "CreateNewForkBlock_at F h = Inr st'" "vtx (block ftmpl) = template_vtx st'"
    by blast
  with fork_template_all_coinbase [of F h st']
  show "vtx (block ftmpl) \<noteq> []" and "\<forall>tx \<in> set (vtx (block ftmpl)). IsCoinBase tx"
    by simp_all
qed

text \<open>
  The theorem at the standard template of \<open>demo_pool\<close> (a coinbase, then two
  transactions that are not coinbases), at the fork template of \<open>demo_utxo_100\<close> built
  by the inner builder at height 200, and at the same template returned by the outer
  builder when the tip stays at height 199.
\<close>

theorem template_coinbases_witness:
  "(\<exists>tmpl. CreateNewBlock (demo_std_env demo_pool) [81] = Inr tmpl
       \<and> map IsCoinBase (vtx (block tmpl)) = [True, False, False])
   \<and> (\<exists>st. CreateNewForkBlock_at (demo_fork_env 3 demo_utxo_100) 200 = Inr st
          \<and> map IsCoinBase (template_vtx st) = [True, True])
   \<and> (\<exists>ftmpl. CreateNewForkBlock (demo_fork_env 3 demo_utxo_100) 199 [demo_tip 0] = Some (Inr ftmpl)
          \<and> map IsCoinBase (vtx (block ftmpl)) = [True, True])"
proof -
  let ?E = "demo_std_env demo_pool"
  let ?F = "demo_fork_env 3 demo_utxo_100"
  define tmpl where "tmpl = projr (CreateNewBlock ?E [81])"
  define st where "st = projr (CreateNewForkBlock_at ?F 200)"
  define ftmpl where "ftmpl = projr (the (CreateNewForkBlock ?F 199 [demo_tip 0]))"
  have r: "CreateNewBlock ?E [81] = Inr tmpl"
    unfolding tmpl_def by (simp add: std_eval)
  have l: "length (vtx (block tmpl)) = 3"
    unfolding tmpl_def by (simp add: std_eval)
  have f: "CreateNewForkBlock_at ?F 200 = Inr st"
    unfolding st_def by (simp add: fork_eval demo_utxo_100_def)
  have fl: "length (template_vtx st) = 2"
    unfolding st_def by (simp add: fork_eval demo_utxo_100_def)
  have o: "CreateNewForkBlock ?F 199 [demo_tip 0] = Some (Inr ftmpl)"
    unfolding ftmpl_def by (simp add: fork_eval demo_utxo_100_def demo_tip_def UpdateTime_def)
  have ol: "length (vtx (block ftmpl)) = 2"
    unfolding ftmpl_def by (simp add: fork_eval demo_utxo_100_def demo_tip_def UpdateTime_def)
  note inst = template_coinbases [of ?E "[81]" tmpl ?F 200 st 199 "[demo_tip 0]" ftmpl]
  from inst r l have 1: "map IsCoinBase (vtx (block tmpl)) = [True, False, False]"
    by (cases "vtx (block tmpl)" rule: list3_cases) auto
  from inst f fl have 2: "map IsCoinBase (template_vtx st) = [True, True]"
    by (cases "template_vtx st" rule: list3_cases) auto
  from inst o ol have 3: "map IsCoinBase (vtx (block ftmpl)) = [True, True]"
    by (cases "vtx (block ftmpl)" rule: list3_cases) auto
  have a: "\<exists>tmpl. CreateNewBlock ?E [81] = Inr tmpl
       \<and> map IsCoinBase (vtx (block tmpl)) = [True, False, False]"
    by (rule exI [of _ tmpl]) (intro conjI r 1)
  have b: "\<exists>st. CreateNewForkBlock_at ?F 200 = Inr st
          \<and> map IsCoinBase (template_vtx st) = [True, True]"
    by (rule exI [of _ st]) (intro conjI f 2)
  have c: "\<exists>ftmpl. CreateNewForkBlock ?F 199 [demo_tip 0] = Some (Inr ftmpl)
          \<and> map IsCoinBase (vtx (block ftmpl)) = [True, True]"
    by (rule exI [of _ ftmpl]) (intro conjI o 3)
  from a b c show ?thesis by (intro conjI)
qed

subsection \<open>C7: the length of a coinbase script\<close>

text \<open>
  A shielded file with one record: the size field says 102 (in binary), and the raw
  transaction is the byte 1 followed by 101 bytes, which the sample decoder takes for
  the script of the only input.
\<close>

definition demo_zutxo_long :: "byte list" where
  "demo_zutxo_long =
     [48, 48, 48, 48, 48, 48, 48, 48, 48, 48, 48, 48, 48, 48, 48, 48, 48, 48, 48, 48, 48, 48, 48, 48, 48,
      49, 49, 48, 48, 49, 49, 48,
      1, 7, 7, 7, 7, 7, 7, 7, 7, 7, 7, 7, 7, 7, 7, 7, 7, 7, 7, 7,
      7, 7, 7, 7, 7, 7, 7, 7, 7, 7, 7, 7, 7, 7, 7, 7, 7, 7, 7, 7,
      7, 7, 7, 7, 7, 7, 7, 7, 7, 7, 7, 7, 7, 7, 7, 7, 7, 7, 7, 7,
      7, 7, 7, 7, 7, 7, 7, 7, 7, 7, 7, 7, 7, 7, 7, 7, 7, 7, 7, 7,
      7, 7, 7, 7, 7, 7, 7, 7, 7, 7, 7, 7, 7, 7, 7, 7, 7, 7, 7, 7,
      7, 7]"

text \<open>
  C7, as the spec states it, fails: the fork builder has no test on the length of a
  script and no failure for it. At height 150, the shielded height of the sample
  environment, the record of \<open>demo_zutxo_long\<close> is emitted as a coinbase whose input
  script has 101 bytes.
\<close>

theorem long_scriptSig_counterexample:
  "map (map (length \<circ> scriptSig) \<circ> vin)
     (tl (vtx_of (CreateNewForkBlock_at (demo_fork_env 3 demo_zutxo_long) 150))) = [[101]]"
  by (simp add: fork_eval demo_zutxo_long_def)

lemma fork_scriptSig_length:
  assumes "\<forall>v. length (push_int64 E v) \<le> a" and "\<forall>v. length (push_CScriptNum E v) \<le> b"
    and "length (push_bytes E (hashPid E)) \<le> c"
  shows "length (fork_scriptSig E nHeight nTx) \<le> a + b + c + 1"
proof -
  from assms(1) have "length (push_int64 E nHeight) \<le> a" by blast
  moreover from assms(2) have "length (push_CScriptNum E (int nTx)) \<le> b"
    and "length (push_CScriptNum E 0) \<le> b" by blast+
  ultimately show ?thesis using assms(3) by (auto simp: fork_scriptSig_def)
qed

lemma dummy_scriptSig_length:
  assumes "\<forall>v. length (push_int64 E v) \<le> a" and "\<forall>v. length (push_CScriptNum E v) \<le> b"
    and "length (push_bytes E (hashPid E)) \<le> c"
  shows "\<forall>txin \<in> set (vin (dummy_txCoinbase E nHeight)). length (scriptSig txin) \<le> a + b + c + 1"
proof -
  from assms(1) have "length (push_int64 E nHeight) \<le> a" by blast
  moreover from assms(2) have "length (push_CScriptNum E 0) \<le> b" by blast
  ultimately show ?thesis using assms(3)
    by (simp add: dummy_txCoinbase_def CTransaction_default_def CTxIn_default_def)
qed

text \<open>
  C7, amended. The fork builder never fails on account of a script's length: the only
  ways it ends without a template are a snapshot file that cannot be opened, a negative
  length field and a raw transaction that does not decode. In the transparent format
  the script of every coinbase is made of the pushes of the height, of the index and, at
  index 0, of \<open>hashPid\<close>, and of \<open>OP_0\<close>: when those pushes take at most \<open>a\<close>,
  \<open>b\<close> and \<open>c\<close> bytes, every script in the template has at most
  \<open>a + b + c + 1\<close> bytes. In the shielded format the script of a coinbase is that of
  the first input of the decoded transaction, of whatever length. The limit of 100 bytes
  is tested by \<^verbatim>\<open>IncrementExtraNonce\<close> alone: on a block with a first transaction
  that has an input, its assertion fails exactly when the script it has built is longer
  than 100 bytes, and the script of the block it returns is that script, of at most 100
  bytes.
\<close>

theorem coinbase_script_length:
  "(CreateNewForkBlock_at E nHeight = Inl e \<longrightarrow>
      e = FileNotFound \<or> e = BadArrayNewLength \<or> e = DecodeFailed)
   \<and> (CreateNewForkBlock_at E nHeight = Inr st \<and> nHeight \<noteq> ZUtxoMiningStartBlock E
        \<and> (\<forall>v. length (push_int64 E v) \<le> a) \<and> (\<forall>v. length (push_CScriptNum E v) \<le> b)
        \<and> length (push_bytes E (hashPid E)) \<le> c \<longrightarrow>
        (\<forall>tx \<in> set (template_vtx st). \<forall>txin \<in> set (vin tx).
           length (scriptSig txin) \<le> a + b + c + 1))
   \<and> (CreateNewForkBlock_at E nHeight = Inr st \<and> nHeight = ZUtxoMiningStartBlock E \<longrightarrow>
        (\<forall>tx \<in> set (tl (template_vtx st)). \<exists>raw txNew.
           decoderawtransaction2 E raw = Some txNew
           \<and> map scriptSig (vin tx) = [case vin txNew of [] \<Rightarrow> [] | i # _ \<Rightarrow> scriptSig i]))
   \<and> (vtx pblock \<noteq> [] \<and> vin (hd (vtx pblock)) \<noteq> [] \<longrightarrow>
        (IncrementExtraNonce S pblock pindexPrev nExtraNonce hashPrevBlock_static
           = Inl AssertionFailed
         \<longleftrightarrow> 100 < length (extra_nonce_scriptSig S pindexPrev
                             ((if hashPrevBlock_static \<noteq> hashPrevBlock pblock then 0
                               else nExtraNonce) + 1))))
   \<and> (IncrementExtraNonce S pblock pindexPrev nExtraNonce hashPrevBlock_static
         = Inr (pblock', nExtraNonce', hashPrevBlock_static') \<longrightarrow>
        scriptSig (hd (vin (hd (vtx pblock'))))
          = extra_nonce_scriptSig S pindexPrev nExtraNonce'
        \<and> length (scriptSig (hd (vin (hd (vtx pblock'))))) \<le> 100)"
proof (intro conjI impI)
  assume "CreateNewForkBlock_at E nHeight = Inl e"
  then show "e = FileNotFound \<or> e = BadArrayNewLength \<or> e = DecodeFailed"
    by (rule CreateNewForkBlock_at_Inl)
next
  assume h: "CreateNewForkBlock_at E nHeight = Inr st \<and> nHeight \<noteq> ZUtxoMiningStartBlock E
        \<and> (\<forall>v. length (push_int64 E v) \<le> a) \<and> (\<forall>v. length (push_CScriptNum E v) \<le> b)
        \<and> length (push_bytes E (hashPid E)) \<le> c"
  then have r: "CreateNewForkBlock_at E nHeight = Inr st"
    and fmt: "nHeight \<noteq> ZUtxoMiningStartBlock E"
    and p: "\<forall>v. length (push_int64 E v) \<le> a" "\<forall>v. length (push_CScriptNum E v) \<le> b"
      "length (push_bytes E (hashPid E)) \<le> c"
    by simp_all
  from r fmt obtain txs where
    v: "template_vtx st = dummy_txCoinbase E nHeight # txs" and
    t: "\<forall>i < length txs. \<exists>amount pks. txs ! i = transparent_txNew E nHeight i amount pks"
    by (rule fork_template_transparent) blast
  show "\<forall>tx \<in> set (template_vtx st). \<forall>txin \<in> set (vin tx).
          length (scriptSig txin) \<le> a + b + c + 1"
  proof (intro ballI)
    fix tx txin
    assume tx: "tx \<in> set (template_vtx st)" and txin: "txin \<in> set (vin tx)"
    show "length (scriptSig txin) \<le> a + b + c + 1"
    proof (cases "tx = dummy_txCoinbase E nHeight")
      case True
      with dummy_scriptSig_length [OF p, of nHeight] txin show ?thesis by blast
    next
      case False
      with tx v have "tx \<in> set txs" by simp
      then obtain i where "i < length txs" "txs ! i = tx" by (auto simp: in_set_conv_nth)
      with t obtain amount pks where "tx = transparent_txNew E nHeight i amount pks" by auto
      with txin have "scriptSig txin = fork_scriptSig E nHeight i"
        by (simp add: transparent_txNew_vin)
      with fork_scriptSig_length [OF p, of nHeight i] show ?thesis by simp
    qed
  qed
next
  assume h: "CreateNewForkBlock_at E nHeight = Inr st \<and> nHeight = ZUtxoMiningStartBlock E"
  then have r: "CreateNewForkBlock_at E nHeight = Inr st"
    and z: "nHeight = ZUtxoMiningStartBlock E"
    by blast+
  from r z obtain txs bytes where
    b: "utxo_files E nHeight = Some bytes" and
    v: "template_vtx st = dummy_txCoinbase E nHeight # txs" and
    t: "\<forall>i < length txs.
          \<exists>raw txNew. decoderawtransaction2 E raw = Some txNew \<and> txs ! i = shielded_txM txNew"
    by (rule fork_template_shielded) blast
  show "\<forall>tx \<in> set (tl (template_vtx st)). \<exists>raw txNew.
           decoderawtransaction2 E raw = Some txNew
           \<and> map scriptSig (vin tx) = [case vin txNew of [] \<Rightarrow> [] | i # _ \<Rightarrow> scriptSig i]"
  proof
    fix tx
    assume "tx \<in> set (tl (template_vtx st))"
    with v have "tx \<in> set txs" by simp
    then obtain i where "i < length txs" "txs ! i = tx" by (auto simp: in_set_conv_nth)
    with t obtain raw txNew where
      d: "decoderawtransaction2 E raw = Some txNew" and "tx = shielded_txM txNew"
      by auto
    then have m: "map scriptSig (vin tx) = [case vin txNew of [] \<Rightarrow> [] | i # _ \<Rightarrow> scriptSig i]"
      by (simp add: shielded_txM_shape(1))
    show "\<exists>raw txNew. decoderawtransaction2 E raw = Some txNew
           \<and> map scriptSig (vin tx) = [case vin txNew of [] \<Rightarrow> [] | i # _ \<Rightarrow> scriptSig i]"
      by (rule exI [of _ raw], rule exI [of _ txNew]) (intro conjI d m)
  qed
next
  assume "vtx pblock \<noteq> [] \<and> vin (hd (vtx pblock)) \<noteq> []"
  then obtain txCoinbase others txin ins where
    "vtx pblock = txCoinbase # others" "vin txCoinbase = txin # ins"
    by (cases "vtx pblock"; cases "vin (hd (vtx pblock))") auto
  then show "IncrementExtraNonce S pblock pindexPrev nExtraNonce hashPrevBlock_static
           = Inl AssertionFailed
         \<longleftrightarrow> 100 < length (extra_nonce_scriptSig S pindexPrev
                             ((if hashPrevBlock_static \<noteq> hashPrevBlock pblock then 0
                               else nExtraNonce) + 1))"
    by (auto simp: IncrementExtraNonce_def Let_def)
next
  assume r: "IncrementExtraNonce S pblock pindexPrev nExtraNonce hashPrevBlock_static
         = Inr (pblock', nExtraNonce', hashPrevBlock_static')"
  then obtain txCoinbase others txin ins where
    s: "vtx pblock = txCoinbase # others" "vin txCoinbase = txin # ins"
    by (auto simp: IncrementExtraNonce_def Let_def split: list.splits)
  with r show "scriptSig (hd (vin (hd (vtx pblock'))))
      = extra_nonce_scriptSig S pindexPrev nExtraNonce'"
    by (auto simp: IncrementExtraNonce_def Let_def split: if_splits)
  from s r show "length (scriptSig (hd (vin (hd (vtx pblock'))))) \<le> 100"
    by (auto simp: IncrementExtraNonce_def Let_def split: if_splits)
qed

definition demo_utxo_negative :: "byte list" where
  "demo_utxo_negative = [1, 0, 0, 0, 0, 0, 0, 0,  255, 255, 255, 255, 0, 0, 0, 0,  81,  10]"

definition demo_mined_block :: CBlock where
  "demo_mined_block =
     CBlock_default
       \<lparr>hashPrevBlock := 77,
        vtx := [miner_txNew (demo_std_env demo_pool) [81] 200 0]\<rparr>"

definition demo_long_flags_env :: "uint256 list std_env" where
  "demo_long_flags_env = (demo_std_env demo_pool)\<lparr>COINBASE_FLAGS := replicate 95 0\<rparr>"

text \<open>
  The theorem in the sample environments. A transparent file whose length field is
  \<open>2 ^ 32 - 1\<close> makes the fork builder throw for a negative length. In the template built
  from \<open>demo_utxo_100\<close> at height 200 both scripts have 44 bytes, within the bound
  \<open>5 + 5 + 33 + 1\<close> of the sample pushes. The shielded template of
  \<open>demo_zutxo_long\<close> keeps the decoded script. \<^verbatim>\<open>IncrementExtraNonce\<close> on a block
  with the miner's coinbase builds a script of 10 bytes and returns; with coinbase flags
  of 95 bytes the script has 105 bytes and the assertion fails.
\<close>

theorem coinbase_script_length_witness:
  "CreateNewForkBlock_at (demo_fork_env 3 demo_utxo_negative) 200 = Inl BadArrayNewLength
   \<and> (\<exists>st. CreateNewForkBlock_at (demo_fork_env 3 demo_utxo_100) 200 = Inr st
          \<and> map (map (length \<circ> scriptSig) \<circ> vin) (template_vtx st) = [[44], [44]]
          \<and> (\<forall>tx \<in> set (template_vtx st). \<forall>txin \<in> set (vin tx). length (scriptSig txin) \<le> 44))
   \<and> (\<exists>st. CreateNewForkBlock_at (demo_fork_env 3 demo_zutxo_long) 150 = Inr st
          \<and> (\<forall>tx \<in> set (tl (template_vtx st)). \<exists>raw txNew.
                decoderawtransaction2 (demo_fork_env 3 demo_zutxo_long) raw = Some txNew
                \<and> map scriptSig (vin tx) = [case vin txNew of [] \<Rightarrow> [] | i # _ \<Rightarrow> scriptSig i]))
   \<and> (\<exists>pblock' n' h'.
          IncrementExtraNonce (demo_std_env demo_pool) demo_mined_block (demo_tip 0) 0 0
            = Inr (pblock', n', h')
          \<and> n' = 1 \<and> length (scriptSig (hd (vin (hd (vtx pblock'))))) = 10)
   \<and> IncrementExtraNonce demo_long_flags_env demo_mined_block (demo_tip 0) 0 0
       = Inl AssertionFailed"
proof -
  let ?N = "demo_fork_env 3 demo_utxo_negative"
  let ?F = "demo_fork_env 3 demo_utxo_100"
  let ?Z = "demo_fork_env 3 demo_zutxo_long"
  let ?S = "demo_std_env demo_pool"
  define st where "st = projr (CreateNewForkBlock_at ?F 200)"
  define zst where "zst = projr (CreateNewForkBlock_at ?Z 150)"
  define res where "res = projr (IncrementExtraNonce ?S demo_mined_block (demo_tip 0) 0 0)"
  have n: "CreateNewForkBlock_at ?N 200 = Inl BadArrayNewLength"
    by (simp add: fork_eval demo_utxo_negative_def)
  have f: "CreateNewForkBlock_at ?F 200 = Inr st"
    unfolding st_def by (simp add: fork_eval demo_utxo_100_def)
  have fl: "map (map (length \<circ> scriptSig) \<circ> vin) (template_vtx st) = [[44], [44]]"
    unfolding st_def by (simp add: fork_eval demo_utxo_100_def)
  have z: "CreateNewForkBlock_at ?Z 150 = Inr zst"
    unfolding zst_def by (simp add: fork_eval demo_zutxo_long_def)
  have pushes: "200 \<noteq> ZUtxoMiningStartBlock ?F" "\<forall>v. length (push_int64 ?F v) \<le> 5"
    "\<forall>v. length (push_CScriptNum ?F v) \<le> 5" "length (push_bytes ?F (hashPid ?F)) \<le> 33"
    "150 = ZUtxoMiningStartBlock ?Z"
    by (simp_all add: demo_fork_env_def demo_push_int_def demo_push_bytes_def)
  have blk: "vtx demo_mined_block \<noteq> [] \<and> vin (hd (vtx demo_mined_block)) \<noteq> []"
    by (simp add: demo_mined_block_def miner_txNew_def Let_def CTransaction_default_def)
  have i: "IncrementExtraNonce ?S demo_mined_block (demo_tip 0) 0 0
      = Inr (fst res, fst (snd res), snd (snd res))"
    unfolding res_def
    by (simp add: IncrementExtraNonce_def extra_nonce_scriptSig_def demo_mined_block_def
          std_eval)
  have i1: "fst (snd res) = 1"
    unfolding res_def
    by (simp add: IncrementExtraNonce_def extra_nonce_scriptSig_def demo_mined_block_def
          std_eval)
  have len: "length (extra_nonce_scriptSig ?S (demo_tip 0) 1) = 10"
    "length (extra_nonce_scriptSig demo_long_flags_env (demo_tip 0) 1) = 105"
    "hashPrevBlock demo_mined_block = 77"
    by (simp_all add: extra_nonce_scriptSig_def demo_long_flags_env_def demo_mined_block_def
          std_eval)
  note transparent =
    conjunct1 [OF conjunct2 [OF coinbase_script_length [of ?F 200 _ st 5 5 33]]]
  note shielded =
    conjunct1 [OF conjunct2 [OF conjunct2 [OF coinbase_script_length [of ?Z 150 _ zst]]]]
  note asserted =
    conjunct1 [OF conjunct2 [OF conjunct2 [OF conjunct2 [OF coinbase_script_length
      [of _ _ _ _ _ _ _ demo_mined_block demo_long_flags_env "demo_tip 0" 0 0]]]]]
  note returned =
    conjunct2 [OF conjunct2 [OF conjunct2 [OF conjunct2 [OF coinbase_script_length
      [of _ _ _ _ _ _ _ demo_mined_block ?S "demo_tip 0" 0 0
          "fst res" "fst (snd res)" "snd (snd res)"]]]]]
  from transparent f pushes(1-4)
  have 2: "\<forall>tx \<in> set (template_vtx st). \<forall>txin \<in> set (vin tx). length (scriptSig txin) \<le> 44"
    by simp
  from shielded z pushes(5)
  have 3: "\<forall>tx \<in> set (tl (template_vtx zst)). \<exists>raw txNew.
      decoderawtransaction2 ?Z raw = Some txNew
      \<and> map scriptSig (vin tx) = [case vin txNew of [] \<Rightarrow> [] | i # _ \<Rightarrow> scriptSig i]"
    by (rule mp [OF _ conjI])
  from returned i i1 len(1)
  have 4: "length (scriptSig (hd (vin (hd (vtx (fst res)))))) = 10" by simp
  from asserted blk len(2,3)
  have 5: "IncrementExtraNonce demo_long_flags_env demo_mined_block (demo_tip 0) 0 0
      = Inl AssertionFailed"
    by simp
  have b: "\<exists>st. CreateNewForkBlock_at ?F 200 = Inr st
      \<and> map (map (length \<circ> scriptSig) \<circ> vin) (template_vtx st) = [[44], [44]]
      \<and> (\<forall>tx \<in> set (template_vtx st). \<forall>txin \<in> set (vin tx). length (scriptSig txin) \<le> 44)"
    by (rule exI [of _ st]) (intro conjI f fl 2)
  have c: "\<exists>st. CreateNewForkBlock_at ?Z 150 = Inr st
      \<and> (\<forall>tx \<in> set (tl (template_vtx st)). \<exists>raw txNew.
            decoderawtransaction2 ?Z raw = Some txNew
            \<and> map scriptSig (vin tx) = [case vin txNew of [] \<Rightarrow> [] | i # _ \<Rightarrow> scriptSig i])"
    by (rule exI [of _ zst]) (intro conjI z 3)
  have d: "\<exists>pblock' n' h'.
      IncrementExtraNonce ?S demo_mined_block (demo_tip 0) 0 0 = Inr (pblock', n', h')
      \<and> n' = 1 \<and> length (scriptSig (hd (vin (hd (vtx pblock'))))) = 10"
    by (rule exI [of _ "fst res"], rule exI [of _ "fst (snd res)"], rule exI [of _ "snd (snd res)"])
       (intro conjI i i1 4)
  from n b c d 5 show ?thesis by (intro conjI)
qed

end
